theory Spec2Isabelle
  imports Main "HOL-Library.Word" "HOL-Library.Signed_Division"
begin

section \<open>Data of metalshader.c\<close>

text \<open>
  The program is one C file: a registry of shader programs found on disk, a keyboard
  poll that steps through the registry, and a main loop that rebuilds the Vulkan pipeline
  on request, renders one frame, and copies the render target row by row into the GBM
  scanout buffer. The model is a state-passing embedding: the globals, the locals of
  \<open>main\<close> that live across iterations, and the parts of the outside world the loop
  touches (device objects, mapped memory, the keyboard queue, standard output) are the
  fields of one record.
\<close>

subsection \<open>C integers\<close>

text \<open>
  \<open>int\<close> is 32 bits wide. Values are kept as HOL integers and every arithmetic result
  is cut back to 32 bits with \<open>signed_take_bit 31\<close>; \<open>%\<close> is C's truncating
  remainder \<open>smod\<close>.
\<close>

definition int32 :: "int \<Rightarrow> int" where
  "int32 x = signed_take_bit 31 x"

definition MAX_SHADERS :: int where
  "MAX_SHADERS = 256"

subsection \<open>Structures\<close>

type_synonym handle = nat \<comment> \<open>a Vulkan handle; 0 is \<open>VK_NULL_HANDLE\<close>\<close>

definition VK_NULL_HANDLE :: handle where
  "VK_NULL_HANDLE = 0"

record ShaderInfo =
  name :: string
  vert_path :: string
  frag_path :: string

record input_event =
  ev_type :: "16 word"
  ev_code :: "16 word"
  ev_value :: "32 word" \<comment> \<open>\<open>__s32\<close>; only compared with 1\<close>

record timespec =
  tv_sec :: int
  tv_nsec :: int

text \<open>
  Single-precision values. The program creates every float but \<open>iTime\<close> from an integer
  (\<open>W\<close>, \<open>H\<close>, 0, 1); those are kept as that integer. \<open>iTime\<close> is
  \<open>(now.tv_sec - start.tv_sec) + (now.tv_nsec - start.tv_nsec) / 1e9f\<close>; the model keeps
  the two integer differences the expression is computed from and leaves the rounding
  of the float arithmetic uninterpreted.
\<close>

record elapsed =
  d_sec :: int
  d_nsec :: int

record ShaderToyUBO =
  iResolution :: "int list"
  iTime :: elapsed
  iMouse :: "int list"

subsection \<open>Pipeline construction parameters\<close>

datatype VkShaderStageFlagBits = VK_SHADER_STAGE_VERTEX_BIT | VK_SHADER_STAGE_FRAGMENT_BIT

datatype VkPrimitiveTopology =
    VK_PRIMITIVE_TOPOLOGY_POINT_LIST
  | VK_PRIMITIVE_TOPOLOGY_LINE_LIST
  | VK_PRIMITIVE_TOPOLOGY_LINE_STRIP
  | VK_PRIMITIVE_TOPOLOGY_TRIANGLE_LIST
  | VK_PRIMITIVE_TOPOLOGY_TRIANGLE_STRIP
  | VK_PRIMITIVE_TOPOLOGY_TRIANGLE_FAN

datatype VkPolygonMode = VK_POLYGON_MODE_FILL | VK_POLYGON_MODE_LINE | VK_POLYGON_MODE_POINT

record VkPipelineShaderStageCreateInfo =
  stage :: VkShaderStageFlagBits
  stage_module :: handle
  pName :: string

record VkViewport =
  vp_x :: int
  vp_y :: int
  vp_width :: int
  vp_height :: int
  minDepth :: int
  maxDepth :: int

record VkRect2D =
  offset_x :: int
  offset_y :: int
  extent_width :: "32 word"
  extent_height :: "32 word"

record VkPipelineColorBlendAttachmentState =
  blendEnable :: bool
  colorWriteMask :: "32 word"

text \<open>
  \<open>VkGraphicsPipelineCreateInfo\<close> as line 563 fills it. A field the designated
  initialiser does not mention is zero: a count of 0, a \<open>NULL\<close> pointer (\<open>None\<close>),
  \<open>VK_FALSE\<close>.
\<close>

record VkGraphicsPipelineCreateInfo =
  stageCount :: nat
  pStages :: "VkPipelineShaderStageCreateInfo list"
  vertexBindingDescriptionCount :: nat
  vertexAttributeDescriptionCount :: nat
  topology :: VkPrimitiveTopology
  primitiveRestartEnable :: bool
  viewportCount :: nat
  pViewports :: "VkViewport list"
  scissorCount :: nat
  pScissors :: "VkRect2D list"
  polygonMode :: VkPolygonMode
  cullMode :: "32 word"
  lineWidth :: int
  rasterizationSamples :: nat
  pDepthStencilState :: "unit option"
  pTessellationState :: "unit option"
  pDynamicState :: "unit option"
  logicOpEnable :: bool
  attachmentCount :: nat
  pAttachments :: "VkPipelineColorBlendAttachmentState list"
  layout :: handle
  renderPass :: handle
  subpass :: nat

subsection \<open>Observable actions\<close>

datatype message =
    MsgPrevious string
  | MsgNext string
  | MsgToggling
  | MsgCantOpen string
  | MsgNoDisplayPort
  | MsgExiting
  | MsgFound int
  | MsgListed int string
  | MsgNoCompiledShaders
  | MsgNotFound string
  | MsgAvailable string
  | MsgStarting string
  | MsgNoKeyboard
  | MsgFailedToLoad string
  | MsgLoaded string
  | MsgVkErr int
  | MsgFps elapsed int string

datatype command =
    CmdBeginRenderPass handle handle "32 word" "32 word"
  | CmdBindPipeline handle
  | CmdBindDescriptorSets handle handle
  | CmdDraw nat nat nat nat
  | CmdEndRenderPass

datatype effect =
    Print message
  | Sleep nat
  | HostWrite string string
  | DestroyPipeline handle
  | DestroyShaderModule handle
  | CreateShaderModule handle
  | CreateGraphicsPipelines handle VkGraphicsPipelineCreateInfo
  | QueueSubmit "command list"
  | WaitForFences
  | DirtyFB

datatype 'a outcome =
    Returns 'a
  | Continues 'a
  | Exits int 'a
  | Traps 'a

text \<open>
  \<open>Returns\<close>: the function came back (for the loop body: its end was reached).
  \<open>Continues\<close>: the loop body was left through \<open>continue\<close>.
  \<open>Exits c\<close>: the process ended through \<open>exit(c)\<close> or a \<open>return c\<close> of \<open>main\<close>.
  \<open>Traps\<close>: the C program has no defined behaviour from here (division by zero, an
  array index out of range, a copy outside a buffer, a destroyed handle given back to the
  device).
\<close>

primrec final :: "'a outcome \<Rightarrow> 'a" where
  "final (Returns w) = w"
| "final (Continues w) = w"
| "final (Exits c w) = w"
| "final (Traps w) = w"

subsection \<open>The state\<close>

record world =
  \<comment> \<open>file-scope variables\<close>
  shaders :: "ShaderInfo list"
  current_shader :: int
  reload_requested :: int
  port_path :: string
  \<comment> \<open>locals of main\<close>
  kbd_fd :: int
  W :: "32 word"
  H :: "32 word"
  rowPitch :: "64 word"
  pipelineLayout :: handle
  renderPass_h :: handle
  framebuffer :: handle
  descSet :: handle
  pipeline :: handle
  vm :: handle
  fm :: handle
  start :: timespec
  frames :: int
  \<comment> \<open>history variable: the index printed by line 600 at the last successful load\<close>
  built_for :: int
  \<comment> \<open>the device: live objects and what they were created from\<close>
  dev_modules :: "handle \<rightharpoonup> 32 word list"
  dev_pipelines :: "handle \<rightharpoonup> VkGraphicsPipelineCreateInfo"
  next_handle :: handle
  \<comment> \<open>mapped memory\<close>
  scanout :: "8 word list"
  ubo_mem :: "ShaderToyUBO option"
  \<comment> \<open>the outside world\<close>
  kbd_queue :: "input_event list"
  sysfs :: "string \<rightharpoonup> string"
  dev_writable :: "string \<Rightarrow> bool"
  trace :: "effect list"

definition emit :: "effect \<Rightarrow> world \<Rightarrow> world" where
  "emit e w = w\<lparr>trace := trace w @ [e]\<rparr>"

definition printf :: "message \<Rightarrow> world \<Rightarrow> world" where
  "printf m w = emit (Print m) w"

text \<open>
  The C array \<open>shaders\<close> and its fill count \<open>shader_count\<close> are one list: the
  registered entries, in order. (The C code also uses the slot at \<open>shader_count\<close> as
  scratch space while it examines a candidate; nothing reads that slot before it is
  registered.) Reading \<open>shaders[i]\<close> outside the registered entries is no read of a
  registered program.
\<close>

definition shader_count :: "world \<Rightarrow> int" where
  "shader_count w = int (length (shaders w))"

definition shader_at :: "world \<Rightarrow> int \<Rightarrow> ShaderInfo option" where
  "shader_at w i =
     (if 0 \<le> i \<and> i < int (length (shaders w)) then Some (shaders w ! nat i) else None)"

section \<open>The keyboard poll\<close>

text \<open>Event and key codes of \<open>linux/input-event-codes.h\<close>.\<close>

definition EV_KEY :: "16 word" where "EV_KEY = 1"
definition KEY_ESC :: "16 word" where "KEY_ESC = 1"
definition KEY_Q :: "16 word" where "KEY_Q = 16"
definition KEY_F :: "16 word" where "KEY_F = 33"
definition KEY_LEFT :: "16 word" where "KEY_LEFT = 105"
definition KEY_RIGHT :: "16 word" where "KEY_RIGHT = 106"

subsection \<open>find_display_port\<close>

fun is_prefix :: "string \<Rightarrow> string \<Rightarrow> bool" where
  "is_prefix [] s = True"
| "is_prefix (c # cs) [] = False"
| "is_prefix (c # cs) (d # ds) = (c = d \<and> is_prefix cs ds)"

text \<open>\<open>strstr(hay, needle) != NULL\<close>\<close>

fun strstr :: "string \<Rightarrow> string \<Rightarrow> bool" where
  "strstr [] needle = (needle = [])"
| "strstr (c # cs) needle = (is_prefix needle (c # cs) \<or> strstr cs needle)"

text \<open>
  \<open>fgets(buf, n, f)\<close> on a freshly opened file: at most \<open>n - 1\<close> bytes, up to and
  with the first newline; \<open>NULL\<close> on an empty file.
\<close>

fun first_line :: "string \<Rightarrow> string" where
  "first_line [] = []"
| "first_line (c # cs) = (if c = CHR 0x0A then [c] else c # first_line cs)"

definition fgets :: "nat \<Rightarrow> string \<Rightarrow> string option" where
  "fgets n content = (if content = [] then None else Some (first_line (take (n - 1) content)))"

text \<open>\<open>%d\<close> of a loop index below 10\<close>

definition digit :: "nat \<Rightarrow> string" where
  "digit i = [char_of (48 + i)]"

function port_scan :: "(string \<rightharpoonup> string) \<Rightarrow> nat \<Rightarrow> string option" where
  "port_scan fs i =
     (if i < 10 then
        (case fs (''/sys/class/virtio-ports/vport'' @ digit i @ ''p1/name'') of
           None \<Rightarrow> port_scan fs (i + 1)
         | Some content \<Rightarrow>
             (case fgets 64 content of
                None \<Rightarrow> port_scan fs (i + 1)
              | Some nm \<Rightarrow>
                  if strstr nm ''org.qemu.display''
                  then Some (''/dev/vport'' @ digit i @ ''p1'')
                  else port_scan fs (i + 1)))
      else None)"
  by pat_completeness auto
termination
  by (relation "measure (\<lambda>(fs, i). 10 - i)") auto

text \<open>The static buffer \<open>port_path\<close> caches the first port found; empty means none yet.\<close>

definition find_display_port :: "world \<Rightarrow> string option \<times> world" where
  "find_display_port w =
     (if port_path w \<noteq> [] then (Some (port_path w), w)
      else (case port_scan (sysfs w) 0 of
              None \<Rightarrow> (None, w)
            | Some p \<Rightarrow> (Some p, w\<lparr>port_path := p\<rparr>)))"

subsection \<open>check_keyboard\<close>

definition key_left :: "world \<Rightarrow> world outcome" where
  "key_left w =
     (if shader_count w = 0 then Traps w
      else
        let w1 = w\<lparr>current_shader :=
                     int32 (int32 (int32 (current_shader w - 1) + shader_count w)
                            smod shader_count w)\<rparr>;
            w2 = w1\<lparr>reload_requested := 1\<rparr>
        in (case shader_at w2 (current_shader w2) of
              None \<Rightarrow> Traps w2
            | Some s \<Rightarrow> Returns (printf (MsgPrevious (name s)) w2)))"

definition key_right :: "world \<Rightarrow> world outcome" where
  "key_right w =
     (if shader_count w = 0 then Traps w
      else
        let w1 = w\<lparr>current_shader :=
                     int32 (int32 (current_shader w + 1) smod shader_count w)\<rparr>;
            w2 = w1\<lparr>reload_requested := 1\<rparr>
        in (case shader_at w2 (current_shader w2) of
              None \<Rightarrow> Traps w2
            | Some s \<Rightarrow> Returns (printf (MsgNext (name s)) w2)))"

definition key_f :: "world \<Rightarrow> world outcome" where
  "key_f w =
     (let w1 = printf MsgToggling w;
          (port, w2) = find_display_port w1
      in (case port of
            Some p \<Rightarrow>
              if dev_writable w2 p
              then Returns (emit (HostWrite p (''FULLSCREEN'' @ [CHR 0x0A])) w2)
              else Returns (printf (MsgCantOpen p) w2)
          | None \<Rightarrow> Returns (printf MsgNoDisplayPort w2)))"

definition key_exit :: "world \<Rightarrow> world outcome" where
  "key_exit w = Exits 0 (printf MsgExiting w)"

text \<open>The \<open>switch (ev.code)\<close>; it has no default case.\<close>

definition on_key :: "16 word \<Rightarrow> world \<Rightarrow> world outcome" where
  "on_key code w =
     (if code = KEY_LEFT then key_left w
      else if code = KEY_RIGHT then key_right w
      else if code = KEY_F then key_f w
      else if code = KEY_ESC \<or> code = KEY_Q then key_exit w
      else Returns w)"

text \<open>
  The \<open>while (read(kbd_fd, &ev, sizeof(ev)) == sizeof(ev))\<close> loop. The device is
  opened with \<open>O_NONBLOCK\<close>: \<open>read\<close> takes the oldest queued event, and fails once the
  queue is empty, which ends the loop. The first argument is the queue at the moment of
  the call.
\<close>

fun read_events :: "input_event list \<Rightarrow> world \<Rightarrow> world outcome" where
  "read_events [] w = Returns w"
| "read_events (ev # q) w =
     (let w1 = w\<lparr>kbd_queue := q\<rparr>
      in if ev_type ev \<noteq> EV_KEY \<or> ev_value ev \<noteq> 1 then read_events q w1
         else (case on_key (ev_code ev) w1 of
                 Returns w2 \<Rightarrow> read_events q w2
               | Continues w2 \<Rightarrow> Continues w2
               | Exits c w2 \<Rightarrow> Exits c w2
               | Traps w2 \<Rightarrow> Traps w2))"

definition check_keyboard :: "int \<Rightarrow> world \<Rightarrow> world outcome" where
  "check_keyboard fd w = (if fd < 0 then Returns w else read_events (kbd_queue w) w)"

section \<open>The program registry\<close>

record dirent =
  d_name :: string
  d_type :: "8 word"

definition DT_REG :: "8 word" where "DT_REG = 8"

text \<open>
  What the scan sees of the file system: for a directory that \<open>opendir\<close> opens, its
  entries in \<open>readdir\<close> order; and the paths on which \<open>stat\<close> returns 0.
\<close>

record filesystem =
  opendir :: "string \<rightharpoonup> dirent list"
  stat_ok :: "string \<Rightarrow> bool"

text \<open>\<open>strrchr(s, c)\<close> as the offset of the last \<open>c\<close> in \<open>s\<close>\<close>

fun strrchr :: "string \<Rightarrow> char \<Rightarrow> nat option" where
  "strrchr [] c = None"
| "strrchr (x # xs) c =
     (case strrchr xs c of
        Some k \<Rightarrow> Some (Suc k)
      | None \<Rightarrow> if x = c then Some 0 else None)"

text \<open>\<open>snprintf(buf, n, ...)\<close> keeps at most \<open>n - 1\<close> bytes of the formatted text.\<close>

definition snprintf :: "nat \<Rightarrow> string \<Rightarrow> string" where
  "snprintf n s = take (n - 1) s"

definition get_basename :: "string \<Rightarrow> string" where
  "get_basename path =
     (case strrchr path (CHR ''/'') of Some k \<Rightarrow> drop (Suc k) path | None \<Rightarrow> path)"

text \<open>
  One pass of the \<open>readdir\<close> loop of \<open>scan_shaders\<close> per directory entry; the loop
  also stops once the registry is full.
\<close>

fun scan_entries :: "(string \<Rightarrow> bool) \<Rightarrow> string \<Rightarrow> dirent list \<Rightarrow> ShaderInfo list
                     \<Rightarrow> ShaderInfo list" where
  "scan_entries st dir [] reg = reg"
| "scan_entries st dir (entry # rest) reg =
     (if \<not> int (length reg) < MAX_SHADERS then reg
      else if d_type entry \<noteq> DT_REG then scan_entries st dir rest reg
      else (case strrchr (d_name entry) (CHR ''.'') of
              None \<Rightarrow> scan_entries st dir rest reg
            | Some base_len \<Rightarrow>
                if drop base_len (d_name entry) \<noteq> ''.frag'' then scan_entries st dir rest reg
                else if base_len \<ge> 256 then scan_entries st dir rest reg
                else
                  let nm = take base_len (d_name entry);
                      vp = snprintf 512 (dir @ ''/'' @ nm @ ''.vert.spv'');
                      fp = snprintf 512 (dir @ ''/'' @ nm @ ''.frag.spv'')
                  in if st vp \<and> st fp
                     then scan_entries st dir rest
                            (reg @ [\<lparr>name = nm, vert_path = vp, frag_path = fp\<rparr>])
                     else scan_entries st dir rest reg))"

definition scan_shaders :: "filesystem \<Rightarrow> string \<Rightarrow> world \<Rightarrow> world" where
  "scan_shaders fs shader_dir w =
     (case opendir fs shader_dir of
        None \<Rightarrow> w
      | Some entries \<Rightarrow> w\<lparr>shaders := scan_entries (stat_ok fs) shader_dir entries (shaders w)\<rparr>)"

definition search_dirs :: "string list" where
  "search_dirs = [''.'', ''./shaders'', ''/root/metalshade/shaders'']"

fun print_list :: "ShaderInfo list \<Rightarrow> int \<Rightarrow> world \<Rightarrow> world" where
  "print_list [] i w = w"
| "print_list (s # ss) i w = print_list ss (i + 1) (printf (MsgListed i (name s)) w)"

definition scan_all_shaders :: "filesystem \<Rightarrow> world \<Rightarrow> world" where
  "scan_all_shaders fs w =
     (let w1 = w\<lparr>shaders := []\<rparr>;
          w2 = fold (scan_shaders fs) search_dirs w1;
          w3 = printf (MsgFound (shader_count w2)) w2
      in print_list (shaders w3) 0 w3)"

fun find_in :: "ShaderInfo list \<Rightarrow> string \<Rightarrow> int \<Rightarrow> int" where
  "find_in [] nm i = -1"
| "find_in (s # ss) nm i = (if name s = nm then i else find_in ss nm (i + 1))"

definition find_shader_by_name :: "world \<Rightarrow> string \<Rightarrow> int" where
  "find_shader_by_name w nm = find_in (shaders w) nm 0"

section \<open>The main loop\<close>

text \<open>
  What one iteration of \<open>while(1)\<close> receives from outside: the result of reading each
  binary (\<open>load_spv\<close> returns \<open>NULL\<close> when \<open>fopen\<close> fails), the \<open>VkResult\<close> of each
  checked Vulkan call, the two clock readings, the input events that have arrived, the
  bytes of the mapped render target once the fence has signalled, and the result of
  \<open>gbm_bo_map\<close> (\<open>NULL\<close>, or a mapping with its stride).
\<close>

record frame_env =
  load_spv :: "string \<rightharpoonup> 32 word list"
  vk_vert_module :: int
  vk_frag_module :: int
  vk_pipeline :: int
  vk_submit :: int
  vk_wait :: int
  clock_loaded :: timespec
  clock_now :: timespec
  arrivals :: "input_event list"
  rt_mem :: "8 word list"
  gbm_bo_map :: "32 word option"

definition and_then :: "'a outcome \<Rightarrow> ('a \<Rightarrow> 'a outcome) \<Rightarrow> 'a outcome" where
  "and_then m f =
     (case m of
        Returns w \<Rightarrow> f w
      | Continues w \<Rightarrow> Continues w
      | Exits c w \<Rightarrow> Exits c w
      | Traps w \<Rightarrow> Traps w)"

text \<open>\<open>VK_CHECK(x)\<close>: a nonzero result is printed and the process exits with 1.\<close>

definition VK_CHECK :: "int \<Rightarrow> world \<Rightarrow> world outcome" where
  "VK_CHECK r w = (if r \<noteq> 0 then Exits 1 (printf (MsgVkErr r) w) else Returns w)"

subsection \<open>Device objects\<close>

text \<open>
  The device keeps the live shader modules and pipelines. Destroying removes the object;
  a handle that is not live must not be given to the device.
\<close>

definition vkDestroyPipeline :: "handle \<Rightarrow> world \<Rightarrow> world outcome" where
  "vkDestroyPipeline h w =
     (if h \<in> dom (dev_pipelines w)
      then Returns (emit (DestroyPipeline h) (w\<lparr>dev_pipelines := (dev_pipelines w)(h := None)\<rparr>))
      else Traps w)"

definition vkDestroyShaderModule :: "handle \<Rightarrow> world \<Rightarrow> world outcome" where
  "vkDestroyShaderModule h w =
     (if h \<in> dom (dev_modules w)
      then Returns (emit (DestroyShaderModule h) (w\<lparr>dev_modules := (dev_modules w)(h := None)\<rparr>))
      else Traps w)"

definition create_vm :: "int \<Rightarrow> 32 word list \<Rightarrow> world \<Rightarrow> world outcome" where
  "create_vm r code w =
     and_then (VK_CHECK r w) (\<lambda>w.
       let h = next_handle w
       in Returns (emit (CreateShaderModule h)
            (w\<lparr>vm := h, dev_modules := (dev_modules w)(h \<mapsto> code), next_handle := h + 1\<rparr>)))"

definition create_fm :: "int \<Rightarrow> 32 word list \<Rightarrow> world \<Rightarrow> world outcome" where
  "create_fm r code w =
     and_then (VK_CHECK r w) (\<lambda>w.
       let h = next_handle w
       in Returns (emit (CreateShaderModule h)
            (w\<lparr>fm := h, dev_modules := (dev_modules w)(h \<mapsto> code), next_handle := h + 1\<rparr>)))"

text \<open>The create info of lines 563 to 598.\<close>

definition pipeline_create_info :: "world \<Rightarrow> VkGraphicsPipelineCreateInfo" where
  "pipeline_create_info w =
     \<lparr>stageCount = 2,
      pStages =
        [\<lparr>stage = VK_SHADER_STAGE_VERTEX_BIT, stage_module = vm w, pName = ''main''\<rparr>,
         \<lparr>stage = VK_SHADER_STAGE_FRAGMENT_BIT, stage_module = fm w, pName = ''main''\<rparr>],
      vertexBindingDescriptionCount = 0,
      vertexAttributeDescriptionCount = 0,
      topology = VK_PRIMITIVE_TOPOLOGY_TRIANGLE_LIST,
      primitiveRestartEnable = False,
      viewportCount = 1,
      pViewports =
        [\<lparr>vp_x = 0, vp_y = 0, vp_width = uint (W w), vp_height = uint (H w),
          minDepth = 0, maxDepth = 1\<rparr>],
      scissorCount = 1,
      pScissors =
        [\<lparr>offset_x = 0, offset_y = 0, extent_width = W w, extent_height = H w\<rparr>],
      polygonMode = VK_POLYGON_MODE_FILL,
      cullMode = 0,
      lineWidth = 1,
      rasterizationSamples = 1,
      pDepthStencilState = None,
      pTessellationState = None,
      pDynamicState = None,
      logicOpEnable = False,
      attachmentCount = 1,
      pAttachments = [\<lparr>blendEnable = False, colorWriteMask = 0xF\<rparr>],
      layout = pipelineLayout w,
      renderPass = renderPass_h w,
      subpass = 0\<rparr>"

definition create_pipeline :: "int \<Rightarrow> world \<Rightarrow> world outcome" where
  "create_pipeline r w =
     and_then (VK_CHECK r w) (\<lambda>w.
       let h = next_handle w
       in Returns (emit (CreateGraphicsPipelines h (pipeline_create_info w))
            (w\<lparr>pipeline := h,
               dev_pipelines := (dev_pipelines w)(h \<mapsto> pipeline_create_info w),
               next_handle := h + 1\<rparr>)))"

subsection \<open>Shader reload (lines 540 to 604)\<close>

definition destroy_old :: "world \<Rightarrow> world outcome" where
  "destroy_old w =
     and_then (if pipeline w \<noteq> VK_NULL_HANDLE then vkDestroyPipeline (pipeline w) w
               else Returns w) (\<lambda>w.
     and_then (if vm w \<noteq> VK_NULL_HANDLE then vkDestroyShaderModule (vm w) w
               else Returns w) (\<lambda>w.
     if fm w \<noteq> VK_NULL_HANDLE then vkDestroyShaderModule (fm w) w else Returns w))"

definition load_new :: "frame_env \<Rightarrow> world \<Rightarrow> world outcome" where
  "load_new env w =
     (case shader_at w (current_shader w) of
        None \<Rightarrow> Traps w
      | Some s \<Rightarrow>
          (case (load_spv env (vert_path s), load_spv env (frag_path s)) of
             (Some vc, Some fc) \<Rightarrow>
               and_then (create_vm (vk_vert_module env) vc w) (\<lambda>w.
               and_then (create_fm (vk_frag_module env) fc w) (\<lambda>w.
               and_then (create_pipeline (vk_pipeline env) w) (\<lambda>w.
                 Returns ((printf (MsgLoaded (name s)) w)
                   \<lparr>reload_requested := 0, start := clock_loaded env, frames := 0,
                    built_for := current_shader w\<rparr>))))
           | _ \<Rightarrow> Continues (emit (Sleep 1) (printf (MsgFailedToLoad (name s)) w))))"

definition reload :: "frame_env \<Rightarrow> world \<Rightarrow> world outcome" where
  "reload env w = and_then (destroy_old w) (load_new env)"

subsection \<open>The copy to the scanout buffer (lines 646 to 653)\<close>

text \<open>
  \<open>memcpy(dst + doff, src + soff, n)\<close> between two separate mappings, each a byte
  list; a copy that leaves either mapping has no defined result.
\<close>

definition memcpy :: "8 word list \<Rightarrow> nat \<Rightarrow> 8 word list \<Rightarrow> nat \<Rightarrow> nat \<Rightarrow> 8 word list option" where
  "memcpy dst doff src soff n =
     (if doff + n \<le> length dst \<and> soff + n \<le> length src
      then Some (take doff dst @ take n (drop soff src) @ drop (doff + n) dst)
      else None)"

text \<open>
  The \<open>for (uint32_t y = 0; y < H; y++)\<close> loop. \<open>y * gbmStride\<close> and \<open>W * 4\<close> are
  32-bit products, \<open>y * rtLayout.rowPitch\<close> is a 64-bit one.
\<close>

function copy_rows :: "32 word \<Rightarrow> 32 word \<Rightarrow> 32 word \<Rightarrow> 64 word \<Rightarrow> 8 word list \<Rightarrow> 32 word
                      \<Rightarrow> 8 word list \<Rightarrow> 8 word list option" where
  "copy_rows wd ht gbmStride pitch src y dst =
     (if y < ht then
        (case memcpy dst (unat (y * gbmStride)) src (unat (ucast y * pitch)) (unat (wd * 4)) of
           None \<Rightarrow> None
         | Some dst' \<Rightarrow> copy_rows wd ht gbmStride pitch src (y + 1) dst')
      else Some dst)"
  by pat_completeness auto
termination
proof (relation "measure (\<lambda>(wd, ht, gbmStride, pitch, src, y, dst). unat ht - unat y)")
  show "wf (measure (\<lambda>(wd, ht, gbmStride, pitch, src, y, dst).
              unat (ht :: 32 word) - unat (y :: 32 word)))"
    by simp
next
  fix wd ht gbmStride :: "32 word" and pitch :: "64 word" and src dst x2 :: "8 word list"
    and y :: "32 word"
  assume "y < ht"
  then have lt: "unat y < unat ht"
    by (simp add: word_less_nat_alt)
  moreover have "unat ht < 2 ^ 32"
    using unsigned_less [of ht] by simp
  ultimately have "unat y + unat (1 :: 32 word) < 2 ^ LENGTH(32)"
    by simp
  then have "unat (y + 1) = unat y + 1"
    using unat_add_lem [of y 1] by simp
  with lt show "((wd, ht, gbmStride, pitch, src, y + 1, x2),
                 (wd, ht, gbmStride, pitch, src, y, dst))
        \<in> measure (\<lambda>(wd, ht, gbmStride, pitch, src, y, dst). unat ht - unat y)"
    by simp
qed

declare copy_rows.simps [simp del]

definition present :: "frame_env \<Rightarrow> world \<Rightarrow> world outcome" where
  "present env w =
     (case gbm_bo_map env of
        None \<Rightarrow> Returns w
      | Some gbmStride \<Rightarrow>
          (case copy_rows (W w) (H w) gbmStride (rowPitch w) (rt_mem env) 0 (scanout w) of
             None \<Rightarrow> Traps w
           | Some dst \<Rightarrow> Returns (w\<lparr>scanout := dst\<rparr>)))"

subsection \<open>One frame (lines 606 to 658)\<close>

definition elapsed_since :: "timespec \<Rightarrow> timespec \<Rightarrow> elapsed" where
  "elapsed_since st now =
     \<lparr>d_sec = tv_sec now - tv_sec st, d_nsec = tv_nsec now - tv_nsec st\<rparr>"

definition frame_commands :: "world \<Rightarrow> command list" where
  "frame_commands w =
     [CmdBeginRenderPass (renderPass_h w) (framebuffer w) (W w) (H w),
      CmdBindPipeline (pipeline w),
      CmdBindDescriptorSets (pipelineLayout w) (descSet w),
      CmdDraw 6 1 0 0,
      CmdEndRenderPass]"

definition submit_and_wait :: "frame_env \<Rightarrow> world \<Rightarrow> world outcome" where
  "submit_and_wait env w =
     (if pipeline w \<notin> dom (dev_pipelines w) then Traps w
      else
        and_then (VK_CHECK (vk_submit env) w) (\<lambda>w.
        and_then (VK_CHECK (vk_wait env) (emit (QueueSubmit (frame_commands w)) w)) (\<lambda>w.
          Returns (emit WaitForFences w))))"

definition count_frame :: "elapsed \<Rightarrow> world \<Rightarrow> world outcome" where
  "count_frame t w =
     (let w1 = w\<lparr>frames := int32 (frames w + 1)\<rparr>
      in if frames w1 smod 60 = 0
         then (case shader_at w1 (current_shader w1) of
                 None \<Rightarrow> Traps w1
               | Some s \<Rightarrow> Returns (printf (MsgFps t (frames w1) (name s)) w1))
         else Returns w1)"

text \<open>Lines 612 to 658: the uniform block, the command buffer, submit, wait, copy, count.\<close>

definition draw :: "frame_env \<Rightarrow> elapsed \<Rightarrow> world \<Rightarrow> world outcome" where
  "draw env t w =
     and_then (submit_and_wait env
                 (w\<lparr>ubo_mem := Some \<lparr>iResolution = [uint (W w), uint (H w), 1],
                                      iTime = t, iMouse = [0, 0, 0, 0]\<rparr>\<rparr>)) (\<lambda>w.
     and_then (present env w) (\<lambda>w.
       count_frame t (emit DirtyFB w)))"

text \<open>Lines 606 to 658: the elapsed time is computed before the keyboard is polled.\<close>

definition render_frame :: "frame_env \<Rightarrow> world \<Rightarrow> world outcome" where
  "render_frame env w =
     (let t = elapsed_since (start w) (clock_now env)
      in and_then (check_keyboard (kbd_fd w) w) (draw env t))"

definition main_iteration :: "frame_env \<Rightarrow> world \<Rightarrow> world outcome" where
  "main_iteration env w0 =
     (let w = w0\<lparr>kbd_queue := kbd_queue w0 @ arrivals env\<rparr>
      in if reload_requested w \<noteq> 0 \<or> pipeline w = VK_NULL_HANDLE
         then and_then (reload env w) (render_frame env)
         else render_frame env w)"

text \<open>
  \<open>while(1)\<close>, observed for as many iterations as there are environments in the list.
  \<open>Returns\<close> then says that the loop is still running after them.
\<close>

fun main_loop :: "frame_env list \<Rightarrow> world \<Rightarrow> world outcome" where
  "main_loop [] w = Returns w"
| "main_loop (env # envs) w =
     (case main_iteration env w of
        Returns w' \<Rightarrow> main_loop envs w'
      | Continues w' \<Rightarrow> main_loop envs w'
      | Exits c w' \<Rightarrow> Exits c w'
      | Traps w' \<Rightarrow> Traps w')"

subsection \<open>Startup (lines 235 to 267 and 530 to 536)\<close>

text \<open>
  \<open>main\<close> up to the loop. The DRM, GBM and Vulkan setup between line 269 and line 527
  is a fixed sequence of creation calls that reads no program state; what it produces
  (the mode's \<open>W\<close> and \<open>H\<close>, the row pitch, the handles, the mapped buffers) is taken from
  the given world. \<open>kbd\<close> is what \<open>open_keyboard\<close> returned and \<open>clock\<close> the reading of
  line 535. The file-scope variables start from their initialisers.
\<close>

definition initialisers :: "world \<Rightarrow> world" where
  "initialisers w = w\<lparr>shaders := [], current_shader := 0, reload_requested := 0, port_path := []\<rparr>"

fun print_available :: "ShaderInfo list \<Rightarrow> world \<Rightarrow> world" where
  "print_available [] w = w"
| "print_available (s # ss) w = print_available ss (printf (MsgAvailable (name s)) w)"

definition startup :: "string list \<Rightarrow> filesystem \<Rightarrow> int \<Rightarrow> timespec \<Rightarrow> world \<Rightarrow> world outcome" where
  "startup argv fs kbd clock w0 =
     (let shader_arg = (if length argv < 2 then ''example'' else argv ! 1);
          shader_name = get_basename shader_arg;
          w1 = scan_all_shaders fs (initialisers w0)
      in if shader_count w1 = 0 then Exits 1 (printf MsgNoCompiledShaders w1)
         else
           let w2 = w1\<lparr>current_shader := find_shader_by_name w1 shader_name\<rparr>
           in if current_shader w2 < 0
              then Exits 1 (print_available (shaders w2) (printf (MsgNotFound shader_name) w2))
              else
                (case shader_at w2 (current_shader w2) of
                   None \<Rightarrow> Traps w2
                 | Some s \<Rightarrow>
                     let w3 = printf (MsgStarting (name s)) w2;
                         w4 = w3\<lparr>kbd_fd := kbd\<rparr>;
                         w5 = (if kbd < 0 then printf MsgNoKeyboard w4 else w4)
                     in Returns (w5\<lparr>pipeline := VK_NULL_HANDLE, vm := VK_NULL_HANDLE,
                                    fm := VK_NULL_HANDLE, start := clock, frames := 0\<rparr>)))"

definition registry_ok :: "world \<Rightarrow> bool" where
  "registry_ok w \<longleftrightarrow>
     shaders w \<noteq> [] \<and> shader_count w \<le> MAX_SHADERS \<and>
     0 \<le> current_shader w \<and> current_shader w < shader_count w"

definition press :: "16 word \<Rightarrow> input_event" where
  "press c = \<lparr>ev_type = EV_KEY, ev_code = c, ev_value = 1\<rparr>"

fun is_io :: "effect \<Rightarrow> bool" where
  "is_io (Print m) = True"
| "is_io (Sleep n) = True"
| "is_io (HostWrite p s) = True"
| "is_io e = False"

definition kbd_frame :: "world \<Rightarrow> world \<Rightarrow> bool" where
  "kbd_frame w w' \<longleftrightarrow>
     shaders w' = shaders w \<and> kbd_fd w' = kbd_fd w \<and> W w' = W w \<and> H w' = H w \<and>
     rowPitch w' = rowPitch w \<and> pipelineLayout w' = pipelineLayout w \<and>
     renderPass_h w' = renderPass_h w \<and> framebuffer w' = framebuffer w \<and>
     descSet w' = descSet w \<and> pipeline w' = pipeline w \<and> vm w' = vm w \<and> fm w' = fm w \<and>
     start w' = start w \<and> frames w' = frames w \<and> built_for w' = built_for w \<and>
     dev_modules w' = dev_modules w \<and> dev_pipelines w' = dev_pipelines w \<and>
     next_handle w' = next_handle w \<and> scanout w' = scanout w \<and> ubo_mem w' = ubo_mem w \<and>
     sysfs w' = sysfs w \<and> dev_writable w' = dev_writable w"

definition kbd_step :: "world \<Rightarrow> world \<Rightarrow> bool" where
  "kbd_step w w' \<longleftrightarrow>
     kbd_frame w w' \<and>
     (\<exists>tr. trace w' = trace w @ tr \<and> list_all is_io tr) \<and>
     (current_shader w' = current_shader w \<and> reload_requested w' = reload_requested w
      \<or> reload_requested w' = 1)"

definition exit_press :: "input_event \<Rightarrow> bool" where
  "exit_press ev \<longleftrightarrow>
     ev_type ev = EV_KEY \<and> ev_value ev = 1 \<and> (ev_code ev = KEY_ESC \<or> ev_code ev = KEY_Q)"

fun is_submit :: "effect \<Rightarrow> bool" where
  "is_submit (QueueSubmit cmds) = True"
| "is_submit e = False"

definition submissions :: "world \<Rightarrow> effect list" where
  "submissions w = filter is_submit (trace w)"

definition demo :: world where
  "demo =
     \<lparr>shaders =
        [\<lparr>name = ''a'', vert_path = ''./a.vert.spv'', frag_path = ''./a.frag.spv''\<rparr>,
         \<lparr>name = ''b'', vert_path = ''./b.vert.spv'', frag_path = ''./b.frag.spv''\<rparr>],
      current_shader = 0, reload_requested = 0, port_path = [],
      kbd_fd = 3, W = 2, H = 2, rowPitch = 8,
      pipelineLayout = 1, renderPass_h = 2, framebuffer = 3, descSet = 4,
      pipeline = 0, vm = 0, fm = 0,
      start = \<lparr>tv_sec = 0, tv_nsec = 0\<rparr>, frames = 0, built_for = 0,
      dev_modules = Map.empty, dev_pipelines = Map.empty, next_handle = 5,
      scanout = replicate 16 0, ubo_mem = None,
      kbd_queue = [], sysfs = Map.empty, dev_writable = (\<lambda>p. False), trace = []\<rparr>"

definition key_release :: "16 word \<Rightarrow> input_event" where
  "key_release c = \<lparr>ev_type = EV_KEY, ev_code = c, ev_value = 0\<rparr>"

definition KEY_A :: "16 word" where "KEY_A = 30"

definition extends :: "(effect \<Rightarrow> bool) \<Rightarrow> world \<Rightarrow> world \<Rightarrow> bool" where
  "extends P w w' \<longleftrightarrow> (\<exists>tr. trace w' = trace w @ tr \<and> list_all P tr)"

definition reload_frame :: "world \<Rightarrow> world \<Rightarrow> bool" where
  "reload_frame w w' \<longleftrightarrow>
     shaders w' = shaders w \<and> current_shader w' = current_shader w \<and>
     port_path w' = port_path w \<and> kbd_fd w' = kbd_fd w \<and> W w' = W w \<and> H w' = H w \<and>
     rowPitch w' = rowPitch w \<and> pipelineLayout w' = pipelineLayout w \<and>
     renderPass_h w' = renderPass_h w \<and> framebuffer w' = framebuffer w \<and>
     descSet w' = descSet w \<and> scanout w' = scanout w \<and> ubo_mem w' = ubo_mem w \<and>
     kbd_queue w' = kbd_queue w \<and> sysfs w' = sysfs w \<and> dev_writable w' = dev_writable w"

definition blank :: "VkGraphicsPipelineCreateInfo \<Rightarrow> VkGraphicsPipelineCreateInfo" where
  "blank info =
     info\<lparr>pStages := map (\<lambda>s. s\<lparr>stage_module := VK_NULL_HANDLE\<rparr>) (pStages info)\<rparr>"

fun is_draw :: "command \<Rightarrow> bool" where
  "is_draw (CmdDraw vertexCount instanceCount firstVertex firstInstance) = True"
| "is_draw c = False"

fun shape_ok :: "VkGraphicsPipelineCreateInfo \<Rightarrow> effect \<Rightarrow> bool" where
  "shape_ok S (CreateGraphicsPipelines h info) = (blank info = S)"
| "shape_ok S (QueueSubmit cmds) = (filter is_draw cmds = [CmdDraw 6 1 0 0])"
| "shape_ok S e = True"

definition reload_effect :: "VkGraphicsPipelineCreateInfo \<Rightarrow> effect \<Rightarrow> bool" where
  "reload_effect S e \<longleftrightarrow> \<not> is_submit e \<and> shape_ok S e"

definition fixed_shape :: "world \<Rightarrow> VkGraphicsPipelineCreateInfo" where
  "fixed_shape w = blank (pipeline_create_info w)"

definition reload_step :: "world \<Rightarrow> world \<Rightarrow> bool" where
  "reload_step w w' \<longleftrightarrow>
     reload_frame w w' \<and> extends (reload_effect (fixed_shape w)) w w'"

definition draw_frame :: "world \<Rightarrow> world \<Rightarrow> bool" where
  "draw_frame w w' \<longleftrightarrow>
     shaders w' = shaders w \<and> current_shader w' = current_shader w \<and>
     reload_requested w' = reload_requested w \<and> port_path w' = port_path w \<and>
     kbd_fd w' = kbd_fd w \<and> W w' = W w \<and> H w' = H w \<and> rowPitch w' = rowPitch w \<and>
     pipelineLayout w' = pipelineLayout w \<and> renderPass_h w' = renderPass_h w \<and>
     framebuffer w' = framebuffer w \<and> descSet w' = descSet w \<and> pipeline w' = pipeline w \<and>
     vm w' = vm w \<and> fm w' = fm w \<and> start w' = start w \<and> built_for w' = built_for w \<and>
     dev_modules w' = dev_modules w \<and> dev_pipelines w' = dev_pipelines w \<and>
     next_handle w' = next_handle w \<and> kbd_queue w' = kbd_queue w \<and> sysfs w' = sysfs w \<and>
     dev_writable w' = dev_writable w"

text \<open>what a frame adds to the trace: io, and submissions of this frame's commands\<close>

definition draw_effect :: "world \<Rightarrow> effect \<Rightarrow> bool" where
  "draw_effect w e \<longleftrightarrow> (is_submit e \<longrightarrow> e = QueueSubmit (frame_commands w)) \<and>
     shape_ok (fixed_shape w) e"

definition draw_step :: "world \<Rightarrow> world \<Rightarrow> bool" where
  "draw_step w w' \<longleftrightarrow> draw_frame w w' \<and> extends (draw_effect w) w w'"

definition loop_static :: "world \<Rightarrow> world \<Rightarrow> bool" where
  "loop_static w w' \<longleftrightarrow>
     shaders w' = shaders w \<and> kbd_fd w' = kbd_fd w \<and> W w' = W w \<and> H w' = H w \<and>
     rowPitch w' = rowPitch w \<and> pipelineLayout w' = pipelineLayout w \<and>
     renderPass_h w' = renderPass_h w \<and> framebuffer w' = framebuffer w \<and>
     descSet w' = descSet w \<and> sysfs w' = sysfs w \<and> dev_writable w' = dev_writable w"

definition iter_step :: "world \<Rightarrow> world \<Rightarrow> bool" where
  "iter_step w w' \<longleftrightarrow> loop_static w w' \<and> extends (shape_ok (fixed_shape w)) w w'"

definition new_effects :: "world \<Rightarrow> world \<Rightarrow> effect list" where
  "new_effects w w' = drop (length (trace w)) (trace w')"

definition no_submit :: "effect \<Rightarrow> bool" where
  "no_submit e \<longleftrightarrow> \<not> is_submit e"

definition frame1 :: frame_env where
  "frame1 =
     \<lparr>load_spv = [''./a.vert.spv'' \<mapsto> [0x07230203, 1], ''./a.frag.spv'' \<mapsto> [0x07230203, 2],
                  ''./b.vert.spv'' \<mapsto> [0x07230203, 3], ''./b.frag.spv'' \<mapsto> [0x07230203, 4]],
      vk_vert_module = 0, vk_frag_module = 0, vk_pipeline = 0, vk_submit = 0, vk_wait = 0,
      clock_loaded = \<lparr>tv_sec = 10, tv_nsec = 500\<rparr>,
      clock_now = \<lparr>tv_sec = 10, tv_nsec = 900\<rparr>,
      arrivals = [],
      rt_mem = [1, 2, 3, 4, 5, 6, 7, 8, 9, 10, 11, 12, 13, 14, 15, 16],
      gbm_bo_map = Some 8\<rparr>"

definition demo_built :: world where
  "demo_built =
     demo\<lparr>pipeline := 7, vm := 5, fm := 6,
          start := \<lparr>tv_sec = 10, tv_nsec = 500\<rparr>, frames := 0, built_for := 0,
          dev_modules := [5 \<mapsto> [0x07230203, 1], 6 \<mapsto> [0x07230203, 2]],
          dev_pipelines := [7 \<mapsto> pipeline_create_info (demo\<lparr>vm := 5, fm := 6\<rparr>)],
          next_handle := 8,
          trace := [CreateShaderModule 5, CreateShaderModule 6,
                    CreateGraphicsPipelines 7 (pipeline_create_info (demo\<lparr>vm := 5, fm := 6\<rparr>)),
                    Print (MsgLoaded ''a'')]\<rparr>"

definition demo_drawn :: world where
  "demo_drawn =
     demo_built\<lparr>frames := 1,
          scanout := [1, 2, 3, 4, 5, 6, 7, 8, 9, 10, 11, 12, 13, 14, 15, 16],
          ubo_mem := Some \<lparr>iResolution = [2, 2, 1], iTime = \<lparr>d_sec = 0, d_nsec = 400\<rparr>,
                           iMouse = [0, 0, 0, 0]\<rparr>,
          trace := trace demo_built @
                   [QueueSubmit [CmdBeginRenderPass 2 3 2 2, CmdBindPipeline 7,
                                 CmdBindDescriptorSets 1 4, CmdDraw 6 1 0 0, CmdEndRenderPass],
                    WaitForFences, DirtyFB]\<rparr>"

definition frame_next :: frame_env where
  "frame_next = frame1\<lparr>arrivals := [press KEY_RIGHT]\<rparr>"

definition frame_missing :: frame_env where
  "frame_missing = frame1\<lparr>load_spv := Map.empty\<rparr>"

definition demo_switched :: world where
  "demo_switched =
     demo_drawn\<lparr>current_shader := 1, reload_requested := 1,
          trace := trace demo_built @
                   [Print (MsgNext ''b''),
                    QueueSubmit [CmdBeginRenderPass 2 3 2 2, CmdBindPipeline 7,
                                 CmdBindDescriptorSets 1 4, CmdDraw 6 1 0 0, CmdEndRenderPass],
                    WaitForFences, DirtyFB]\<rparr>"

definition frame_exit :: frame_env where
  "frame_exit = frame1\<lparr>arrivals := [press KEY_Q]\<rparr>"

definition demo_reloaded :: world where
  "demo_reloaded =
     demo_switched\<lparr>pipeline := 10, vm := 8, fm := 9,
               reload_requested := 0, start := \<lparr>tv_sec = 10, tv_nsec = 500\<rparr>, frames := 0,
               built_for := 1,
               dev_modules := (dev_modules demo_switched)
                 (5 := None, 6 := None, 8 \<mapsto> [0x07230203, 3], 9 \<mapsto> [0x07230203, 4]),
               dev_pipelines := (dev_pipelines demo_switched)
                 (7 := None, 10 \<mapsto> pipeline_create_info (demo\<lparr>vm := 8, fm := 9\<rparr>)),
               next_handle := 11,
               trace := trace demo_switched @
                 [DestroyPipeline 7, DestroyShaderModule 5, DestroyShaderModule 6,
                  CreateShaderModule 8, CreateShaderModule 9,
                  CreateGraphicsPipelines 10 (pipeline_create_info (demo\<lparr>vm := 8, fm := 9\<rparr>)),
                  Print (MsgLoaded ''b'')]\<rparr>"

definition demo_rebuilt :: world where
  "demo_rebuilt =
     demo_reloaded\<lparr>frames := 1,
          trace := trace demo_reloaded @
                   [QueueSubmit [CmdBeginRenderPass 2 3 2 2, CmdBindPipeline 10,
                                 CmdBindDescriptorSets 1 4, CmdDraw 6 1 0 0, CmdEndRenderPass],
                    WaitForFences, DirtyFB]\<rparr>"

definition in_sync :: "world \<Rightarrow> bool" where
  "in_sync w \<longleftrightarrow>
     (reload_requested w = 0 \<and> pipeline w \<noteq> VK_NULL_HANDLE \<longrightarrow> built_for w = current_shader w)"

definition handles_kept :: "world \<Rightarrow> world \<Rightarrow> bool" where
  "handles_kept w w' \<longleftrightarrow>
     reload_requested w' = reload_requested w \<and> pipeline w' = pipeline w \<and> vm w' = vm w \<and>
     fm w' = fm w \<and> start w' = start w \<and> frames w' = frames w \<and>
     built_for w' = built_for w \<and> next_handle w' = next_handle w"

definition arrow_press :: "input_event \<Rightarrow> bool" where
  "arrow_press ev \<longleftrightarrow>
     ev_type ev = EV_KEY \<and> ev_value ev = 1 \<and> (ev_code ev = KEY_LEFT \<or> ev_code ev = KEY_RIGHT)"

text \<open>which outcomes a stage can have\<close>

definition goes_on :: "'a outcome \<Rightarrow> bool" where
  "goes_on m \<longleftrightarrow> (\<forall>w. m \<noteq> Continues w)"

primrec continued :: "'a outcome \<Rightarrow> bool" where
  "continued (Returns w) = False"
| "continued (Continues w) = True"
| "continued (Exits c w) = False"
| "continued (Traps w) = False"

definition drop_handle :: "handle \<Rightarrow> (handle \<rightharpoonup> 'a) \<Rightarrow> (handle \<rightharpoonup> 'a)" where
  "drop_handle h m = (if h = VK_NULL_HANDLE then m else m(h := None))"

definition teardown :: "world \<Rightarrow> effect list" where
  "teardown w =
     (if pipeline w = VK_NULL_HANDLE then [] else [DestroyPipeline (pipeline w)]) @
     (if vm w = VK_NULL_HANDLE then [] else [DestroyShaderModule (vm w)]) @
     (if fm w = VK_NULL_HANDLE then [] else [DestroyShaderModule (fm w)])"

definition frame_unmapped :: frame_env where
  "frame_unmapped = frame1\<lparr>gbm_bo_map := None\<rparr>"

definition wide :: world where
  "wide = demo\<lparr>W := 1, H := 3, rowPitch := 4, scanout := replicate (3 * 2 ^ 31) 0\<rparr>"

definition frame_wide :: frame_env where
  "frame_wide =
     frame1\<lparr>rt_mem := [1, 2, 3, 4, 5, 6, 7, 8, 9, 10, 11, 12],
             gbm_bo_map := Some 0x80000000\<rparr>"

definition strided :: world where
  "strided = demo\<lparr>rowPitch := 16,
                  scanout := [0, 0, 0, 0, 0, 0, 0, 0, 0, 0, 0, 0,
                              0, 0, 0, 0, 0, 0, 0, 0, 0, 0, 0, 0]\<rparr>"

definition frame_strided :: frame_env where
  "frame_strided =
     frame1\<lparr>rt_mem := [1, 2, 3, 4, 5, 6, 7, 8, 9, 10, 11, 12, 13, 14, 15, 16,
                        17, 18, 19, 20, 21, 22, 23, 24, 25, 26, 27, 28, 29, 30, 31, 32],
             gbm_bo_map := Some 12\<rparr>"

text \<open>
  The registry entry of program \<open>nm\<close> found in \<open>dir\<close>; \<open>source_entry e nm\<close>: the directory
  entry \<open>e\<close> is the regular file \<open>nm.frag\<close>; \<open>found_in\<close>: the listing \<open>es\<close> of \<open>dir\<close> has
  such an entry, \<open>nm\<close> fits the name field, and \<open>stat\<close> succeeds on both binaries in \<open>dir\<close>.
\<close>

definition entry_of :: "string \<Rightarrow> string \<Rightarrow> ShaderInfo" where
  "entry_of dir nm =
     \<lparr>name = nm, vert_path = dir @ ''/'' @ nm @ ''.vert.spv'',
      frag_path = dir @ ''/'' @ nm @ ''.frag.spv''\<rparr>"

definition source_entry :: "dirent \<Rightarrow> string \<Rightarrow> bool" where
  "source_entry e nm \<longleftrightarrow> d_type e = DT_REG \<and> d_name e = nm @ ''.frag''"

definition found_in :: "(string \<Rightarrow> bool) \<Rightarrow> string \<Rightarrow> dirent list \<Rightarrow> string \<Rightarrow> bool" where
  "found_in st dir es nm \<longleftrightarrow>
     list_ex (\<lambda>e. source_entry e nm) es \<and> length nm < 256 \<and>
     st (dir @ ''/'' @ nm @ ''.vert.spv'') \<and> st (dir @ ''/'' @ nm @ ''.frag.spv'')"

text \<open>What one directory entry adds to a registry that is not full\<close>

definition scan_entry :: "(string \<Rightarrow> bool) \<Rightarrow> string \<Rightarrow> dirent \<Rightarrow> ShaderInfo list \<Rightarrow> ShaderInfo list" where
  "scan_entry st dir e reg =
     (let nm = take (length (d_name e) - 5) (d_name e)
      in if source_entry e nm \<and> length nm < 256 \<and>
            st (dir @ ''/'' @ nm @ ''.vert.spv'') \<and> st (dir @ ''/'' @ nm @ ''.frag.spv'')
         then reg @ [entry_of dir nm] else reg)"

text \<open>Program \<open>nm\<close> is discovered in the search location \<open>dir\<close>.\<close>

definition eligible :: "filesystem \<Rightarrow> string \<Rightarrow> string \<Rightarrow> bool" where
  "eligible fs dir nm \<longleftrightarrow>
     (case opendir fs dir of None \<Rightarrow> False | Some es \<Rightarrow> found_in (stat_ok fs) dir es nm)"

text \<open>
  Two file systems: one whose current directory holds the two binaries of \<open>a\<close> and
  nothing else; one whose \<open>shaders\<close> directory holds \<open>plasma\<close> with its source and both
  binaries, and the source of \<open>tunnel\<close> without binaries.
\<close>

definition fs_bin :: filesystem where
  "fs_bin =
     \<lparr>opendir = [''.'' \<mapsto> [\<lparr>d_name = ''a.vert.spv'', d_type = DT_REG\<rparr>,
                          \<lparr>d_name = ''a.frag.spv'', d_type = DT_REG\<rparr>]],
      stat_ok = (\<lambda>p. p = ''./a.vert.spv'' \<or> p = ''./a.frag.spv'')\<rparr>"

definition fs_src :: filesystem where
  "fs_src =
     \<lparr>opendir = [''./shaders'' \<mapsto> [\<lparr>d_name = ''plasma.frag'', d_type = DT_REG\<rparr>,
                                  \<lparr>d_name = ''plasma.vert.spv'', d_type = DT_REG\<rparr>,
                                  \<lparr>d_name = ''plasma.frag.spv'', d_type = DT_REG\<rparr>,
                                  \<lparr>d_name = ''tunnel.frag'', d_type = DT_REG\<rparr>]],
      stat_ok = (\<lambda>p. p = ''./shaders/plasma.vert.spv'' \<or> p = ''./shaders/plasma.frag.spv'')\<rparr>"

section \<open>Properties\<close>

lemma int32_id: "- 2147483648 \<le> x \<Longrightarrow> x < 2147483648 \<Longrightarrow> int32 x = x"
  by (simp add: int32_def signed_take_bit_int_eq_self)

lemma smod_nonneg: "0 \<le> a \<Longrightarrow> 0 < b \<Longrightarrow> a smod b = a mod (b::int)"
  by (simp add: smod_int_alt_def sgn_if)

lemma next_index:
  assumes "0 < n" "n \<le> 256" "0 \<le> i" "i < n"
  shows "int32 (int32 (i + 1) smod n) = (i + 1) mod n"
proof -
  have a: "int32 (i + 1) = i + 1"
    using assms by (intro int32_id) linarith+
  have b: "(i + 1) smod n = (i + 1) mod n"
    using assms by (intro smod_nonneg) auto
  have r: "0 \<le> (i + 1) mod n" "(i + 1) mod n < n"
    using assms by auto
  have "int32 ((i + 1) mod n) = (i + 1) mod n"
    by (rule int32_id) (use r assms in linarith)+
  with a b show ?thesis by simp
qed

lemma prev_index:
  assumes "0 < n" "n \<le> 256" "0 \<le> i" "i < n"
  shows "int32 (int32 (int32 (i - 1) + n) smod n) = (i - 1 + n) mod n"
proof -
  have a: "int32 (i - 1) = i - 1"
    using assms by (intro int32_id) linarith+
  have a': "int32 (i - 1 + n) = i - 1 + n"
    using assms by (intro int32_id) linarith+
  have b: "(i - 1 + n) smod n = (i - 1 + n) mod n"
    using assms by (intro smod_nonneg) auto
  have r: "0 \<le> (i - 1 + n) mod n" "(i - 1 + n) mod n < n"
    using assms by auto
  have "int32 ((i - 1 + n) mod n) = (i - 1 + n) mod n"
    by (rule int32_id) (use r assms in linarith)+
  with a a' b show ?thesis by simp
qed

lemma key_right_eq:
  assumes "registry_ok w"
  shows "key_right w =
     Returns (printf (MsgNext (name (shaders w ! nat ((current_shader w + 1) mod shader_count w))))
       (w\<lparr>current_shader := (current_shader w + 1) mod shader_count w, reload_requested := 1\<rparr>))"
proof -
  let ?n = "shader_count w" and ?i = "current_shader w"
  have n: "0 < ?n" "?n \<le> 256" "0 \<le> ?i" "?i < ?n"
    using assms by (auto simp: registry_ok_def shader_count_def MAX_SHADERS_def)
  have j: "0 \<le> (?i + 1) mod ?n" "(?i + 1) mod ?n < ?n"
    using n by auto
  show ?thesis
    using n j next_index [OF n]
    by (simp add: key_right_def Let_def shader_at_def shader_count_def)
qed

lemma key_left_eq:
  assumes "registry_ok w"
  shows "key_left w =
     Returns (printf (MsgPrevious (name (shaders w ! nat ((current_shader w - 1 + shader_count w) mod shader_count w))))
       (w\<lparr>current_shader := (current_shader w - 1 + shader_count w) mod shader_count w, reload_requested := 1\<rparr>))"
proof -
  let ?n = "shader_count w" and ?i = "current_shader w"
  have n: "0 < ?n" "?n \<le> 256" "0 \<le> ?i" "?i < ?n"
    using assms by (auto simp: registry_ok_def shader_count_def MAX_SHADERS_def)
  have j: "0 \<le> (?i - 1 + ?n) mod ?n" "(?i - 1 + ?n) mod ?n < ?n"
    using n by auto
  show ?thesis
    using n j prev_index [OF n]
    by (simp add: key_left_def Let_def shader_at_def shader_count_def)
qed

lemma registry_ok_step:
  assumes "registry_ok w" "0 \<le> j" "j < shader_count w"
  shows "registry_ok (printf m (w\<lparr>current_shader := j, reload_requested := r\<rparr>))"
  using assms by (simp add: registry_ok_def shader_count_def printf_def emit_def)

lemma key_codes_distinct:
  "KEY_LEFT \<noteq> KEY_RIGHT" "KEY_RIGHT \<noteq> KEY_LEFT"
  by (simp_all add: KEY_LEFT_def KEY_RIGHT_def)

lemma read_events_right:
  assumes "registry_ok w"
  shows "\<exists>w'. read_events (replicate k (press KEY_RIGHT)) w = Returns w' \<and>
               current_shader w' = (current_shader w + int k) mod shader_count w \<and>
               shaders w' = shaders w \<and> registry_ok w'"
  using assms
proof (induction k arbitrary: w)
  case 0
  then show ?case
    by (simp add: registry_ok_def)
next
  case (Suc k)
  let ?q = "replicate k (press KEY_RIGHT)"
  let ?w1 = "w\<lparr>kbd_queue := ?q\<rparr>"
  let ?n = "shader_count w"
  have ok1: "registry_ok ?w1"
    using Suc.prems by (simp add: registry_ok_def shader_count_def)
  have n: "0 < ?n"
    using Suc.prems by (simp add: registry_ok_def shader_count_def)
  obtain w2 where w2: "key_right ?w1 = Returns w2"
    and cur2: "current_shader w2 = (current_shader w + 1) mod ?n"
    and sh2: "shaders w2 = shaders w"
    by (simp add: key_right_eq [OF ok1] printf_def emit_def shader_count_def)
  have ok2: "registry_ok w2"
    using ok1 n cur2 sh2 by (simp add: registry_ok_def shader_count_def)
  from Suc.IH [OF ok2] obtain w' where
    w': "read_events ?q w2 = Returns w'"
    and cur': "current_shader w' = (current_shader w2 + int k) mod shader_count w2"
    and sh': "shaders w' = shaders w2" and ok': "registry_ok w'"
    by blast
  have "read_events (replicate (Suc k) (press KEY_RIGHT)) w = Returns w'"
    using w2 w' by (simp add: press_def on_key_def key_codes_distinct)
  moreover have "current_shader w' = (current_shader w + int (Suc k)) mod ?n"
    using cur' cur2 sh2 by (simp add: shader_count_def mod_simps algebra_simps)
  ultimately show ?case
    using sh' sh2 ok' by simp
qed

lemma kbd_step_refl: "kbd_step w w"
  by (simp add: kbd_step_def kbd_frame_def)

lemma kbd_step_queue: "kbd_step w (w\<lparr>kbd_queue := q\<rparr>)"
  by (simp add: kbd_step_def kbd_frame_def)

lemma kbd_step_trans:
  assumes "kbd_step w w'" "kbd_step w' w''"
  shows "kbd_step w w''"
proof -
  from assms obtain t1 t2 where
    "trace w' = trace w @ t1" "list_all is_io t1" "trace w'' = trace w' @ t2" "list_all is_io t2"
    by (auto simp: kbd_step_def)
  then have "trace w'' = trace w @ (t1 @ t2) \<and> list_all is_io (t1 @ t2)"
    by simp
  then have "\<exists>tr. trace w'' = trace w @ tr \<and> list_all is_io tr"
    by blast
  moreover have "kbd_frame w w''"
    using assms by (simp add: kbd_step_def kbd_frame_def)
  moreover have "current_shader w'' = current_shader w \<and> reload_requested w'' = reload_requested w
      \<or> reload_requested w'' = 1"
    using assms by (auto simp: kbd_step_def)
  ultimately show ?thesis
    by (simp add: kbd_step_def)
qed

lemma key_left_step: "kbd_step w (final (key_left w))"
  by (simp add: key_left_def Let_def kbd_step_def kbd_frame_def printf_def emit_def
      split: option.splits)

lemma key_right_step: "kbd_step w (final (key_right w))"
  by (simp add: key_right_def Let_def kbd_step_def kbd_frame_def printf_def emit_def
      split: option.splits)

lemma key_f_step: "kbd_step w (final (key_f w))"
  by (simp add: key_f_def find_display_port_def Let_def kbd_step_def kbd_frame_def printf_def
      emit_def split: option.splits)

lemma key_exit_step: "kbd_step w (final (key_exit w))"
  by (simp add: key_exit_def kbd_step_def kbd_frame_def printf_def emit_def)

lemma on_key_step: "kbd_step w (final (on_key c w))"
  by (simp add: on_key_def key_left_step key_right_step key_f_step key_exit_step kbd_step_refl)

lemma read_events_step: "kbd_step w (final (read_events q w))"
proof (induction q arbitrary: w)
  case Nil
  show ?case by (simp add: kbd_step_refl)
next
  case (Cons ev q)
  let ?w1 = "w\<lparr>kbd_queue := q\<rparr>"
  have s1: "kbd_step w ?w1"
    by (rule kbd_step_queue)
  show ?case
  proof (cases "ev_type ev \<noteq> EV_KEY \<or> ev_value ev \<noteq> 1")
    case True
    then have "final (read_events (ev # q) w) = final (read_events q ?w1)"
      by simp
    with kbd_step_trans [OF s1 Cons.IH [of ?w1]] show ?thesis
      by simp
  next
    case False
    have s2: "kbd_step w (final (on_key (ev_code ev) ?w1))"
      by (rule kbd_step_trans [OF s1 on_key_step])
    show ?thesis
    proof (cases "on_key (ev_code ev) ?w1")
      case (Returns w2)
      with False have "final (read_events (ev # q) w) = final (read_events q w2)"
        by simp
      moreover have "kbd_step w w2"
        using s2 Returns by simp
      ultimately show ?thesis
        using kbd_step_trans [OF _ Cons.IH [of w2]] by simp
    next
      case (Continues w2)
      with False s2 show ?thesis by simp
    next
      case (Exits c w2)
      with False s2 show ?thesis by simp
    next
      case (Traps w2)
      with False s2 show ?thesis by simp
    qed
  qed
qed

lemma check_keyboard_step: "kbd_step w (final (check_keyboard fd w))"
  by (simp add: check_keyboard_def read_events_step kbd_step_refl)

text \<open>with a registry in order, a key either returns or exits with 0\<close>

lemma registry_ok_kbd_step:
  assumes "registry_ok w" "kbd_step w w'" "0 \<le> current_shader w'"
    "current_shader w' < shader_count w"
  shows "registry_ok w'"
  using assms by (simp add: registry_ok_def kbd_step_def kbd_frame_def shader_count_def)

lemma on_key_outcome:
  assumes "registry_ok w"
  shows "(\<exists>w'. on_key c w = Returns w' \<and> registry_ok w' \<and> kbd_queue w' = kbd_queue w) \<or>
         (\<exists>w'. on_key c w = Exits 0 w' \<and> (c = KEY_ESC \<or> c = KEY_Q))"
proof -
  let ?n = "shader_count w"
  have n: "0 < ?n" "0 \<le> current_shader w" "current_shader w < ?n"
    using assms by (auto simp: registry_ok_def shader_count_def)
  have l: "registry_ok (final (key_left w))" "kbd_queue (final (key_left w)) = kbd_queue w"
    using n assms
    by (simp_all add: key_left_eq [OF assms] registry_ok_def shader_count_def printf_def emit_def)
  have r: "registry_ok (final (key_right w))" "kbd_queue (final (key_right w)) = kbd_queue w"
    using n assms
    by (simp_all add: key_right_eq [OF assms] registry_ok_def shader_count_def printf_def emit_def)
  have f: "\<exists>w'. key_f w = Returns w' \<and> registry_ok w' \<and> kbd_queue w' = kbd_queue w"
    using assms
    by (simp add: key_f_def find_display_port_def Let_def registry_ok_def shader_count_def
        printf_def emit_def split: option.splits)
  have l': "\<exists>w'. key_left w = Returns w'"
    by (simp add: key_left_eq [OF assms])
  have r': "\<exists>w'. key_right w = Returns w'"
    by (simp add: key_right_eq [OF assms])
  show ?thesis
    using l r f l' r' assms
    by (auto simp: on_key_def key_exit_def)
qed

lemma mod_step_back: "((i - 1 + n) mod n - k) mod n = (i - (1 + k)) mod (n::int)"
proof -
  have "((i - 1 + n) mod n - k) mod n = (i - 1 + n - k) mod n"
    by (rule mod_diff_left_eq)
  also have "i - 1 + n - k = i - (1 + k) + n"
    by simp
  also have "(i - (1 + k) + n) mod n = (i - (1 + k)) mod n"
    by (rule mod_add_self2)
  finally show ?thesis .
qed

lemma read_events_left:
  assumes "registry_ok w"
  shows "\<exists>w'. read_events (replicate k (press KEY_LEFT)) w = Returns w' \<and>
               current_shader w' = (current_shader w - int k) mod shader_count w \<and>
               shaders w' = shaders w \<and> registry_ok w'"
  using assms
proof (induction k arbitrary: w)
  case 0
  then show ?case
    by (simp add: registry_ok_def)
next
  case (Suc k)
  let ?q = "replicate k (press KEY_LEFT)"
  let ?w1 = "w\<lparr>kbd_queue := ?q\<rparr>"
  let ?n = "shader_count w"
  have ok1: "registry_ok ?w1"
    using Suc.prems by (simp add: registry_ok_def shader_count_def)
  have n: "0 < ?n"
    using Suc.prems by (simp add: registry_ok_def shader_count_def)
  obtain w2 where w2: "key_left ?w1 = Returns w2"
    and cur2: "current_shader w2 = (current_shader w - 1 + ?n) mod ?n"
    and sh2: "shaders w2 = shaders w"
    by (simp add: key_left_eq [OF ok1] printf_def emit_def shader_count_def)
  have ok2: "registry_ok w2"
    using ok1 n cur2 sh2 by (simp add: registry_ok_def shader_count_def)
  from Suc.IH [OF ok2] obtain w' where
    w': "read_events ?q w2 = Returns w'"
    and cur': "current_shader w' = (current_shader w2 - int k) mod shader_count w2"
    and sh': "shaders w' = shaders w2" and ok': "registry_ok w'"
    by blast
  have "read_events (replicate (Suc k) (press KEY_LEFT)) w = Returns w'"
    using w2 w' by (simp add: press_def on_key_def)
  moreover have "current_shader w' = (current_shader w - int (Suc k)) mod ?n"
  proof -
    have "shader_count w2 = ?n"
      using sh2 by (simp add: shader_count_def)
    with cur' cur2 have "current_shader w' = ((current_shader w - 1 + ?n) mod ?n - int k) mod ?n"
      by simp
    also have "\<dots> = (current_shader w - (1 + int k)) mod ?n"
      by (rule mod_step_back)
    also have "\<dots> = (current_shader w - int (Suc k)) mod ?n"
      by simp
    finally show ?thesis .
  qed
  ultimately show ?case
    using sh' sh2 ok' by simp
qed

lemma read_events_outcome:
  assumes "registry_ok w" "kbd_queue w = q"
  shows "(\<exists>w'. read_events q w = Returns w' \<and> kbd_queue w' = [] \<and> registry_ok w') \<or>
         (\<exists>w'. read_events q w = Exits 0 w')"
  using assms
proof (induction q arbitrary: w)
  case Nil
  then show ?case by simp
next
  case (Cons ev q)
  let ?w1 = "w\<lparr>kbd_queue := q\<rparr>"
  have ok1: "registry_ok ?w1" and q1: "kbd_queue ?w1 = q"
    using Cons.prems by (simp_all add: registry_ok_def shader_count_def)
  show ?case
  proof (cases "ev_type ev \<noteq> EV_KEY \<or> ev_value ev \<noteq> 1")
    case True
    then have "read_events (ev # q) w = read_events q ?w1"
      by simp
    with Cons.IH [OF ok1 q1] show ?thesis
      by simp
  next
    case False
    from on_key_outcome [OF ok1, of "ev_code ev"] show ?thesis
    proof
      assume "\<exists>w'. on_key (ev_code ev) ?w1 = Returns w' \<and> registry_ok w' \<and>
                   kbd_queue w' = kbd_queue ?w1"
      then obtain w2 where w2: "on_key (ev_code ev) ?w1 = Returns w2" "registry_ok w2"
        "kbd_queue w2 = q"
        by auto
      from False w2 have "read_events (ev # q) w = read_events q w2"
        by simp
      with Cons.IH [OF w2(2) w2(3)] show ?thesis
        by simp
    next
      assume "\<exists>w'. on_key (ev_code ev) ?w1 = Exits 0 w' \<and>
                   (ev_code ev = KEY_ESC \<or> ev_code ev = KEY_Q)"
      with False show ?thesis
        by auto
    qed
  qed
qed

lemma on_key_exit:
  assumes "c = KEY_ESC \<or> c = KEY_Q"
  shows "on_key c w = Exits 0 (printf MsgExiting w)"
  using assms
  by (auto simp: on_key_def key_exit_def KEY_ESC_def KEY_Q_def KEY_LEFT_def KEY_RIGHT_def KEY_F_def)

lemma read_events_exit:
  assumes "registry_ok w" "kbd_queue w = q" "\<exists>ev \<in> set q. exit_press ev"
  shows "\<exists>w'. read_events q w = Exits 0 w'"
  using assms
proof (induction q arbitrary: w)
  case Nil
  then show ?case by simp
next
  case (Cons ev q)
  let ?w1 = "w\<lparr>kbd_queue := q\<rparr>"
  have ok1: "registry_ok ?w1" and q1: "kbd_queue ?w1 = q"
    using Cons.prems by (simp_all add: registry_ok_def shader_count_def)
  show ?case
  proof (cases "exit_press ev")
    case True
    then show ?thesis
      by (simp add: exit_press_def on_key_exit)
  next
    case no_exit: False
    with Cons.prems have rest: "\<exists>ev \<in> set q. exit_press ev"
      by simp
    show ?thesis
    proof (cases "ev_type ev \<noteq> EV_KEY \<or> ev_value ev \<noteq> 1")
      case True
      then have "read_events (ev # q) w = read_events q ?w1"
        by simp
      with Cons.IH [OF ok1 q1 rest] show ?thesis
        by simp
    next
      case False
      from on_key_outcome [OF ok1, of "ev_code ev"] show ?thesis
      proof
        assume "\<exists>w'. on_key (ev_code ev) ?w1 = Returns w' \<and> registry_ok w' \<and>
                     kbd_queue w' = kbd_queue ?w1"
        then obtain w2 where w2: "on_key (ev_code ev) ?w1 = Returns w2" "registry_ok w2"
          "kbd_queue w2 = q"
          by auto
        from False w2 have "read_events (ev # q) w = read_events q w2"
          by simp
        with Cons.IH [OF w2(2) w2(3) rest] show ?thesis
          by simp
      next
        assume "\<exists>w'. on_key (ev_code ev) ?w1 = Exits 0 w' \<and>
                     (ev_code ev = KEY_ESC \<or> ev_code ev = KEY_Q)"
        with False no_exit show ?thesis
          by (auto simp: exit_press_def)
      qed
    qed
  qed
qed

lemma io_no_submit: "list_all is_io tr \<Longrightarrow> filter is_submit tr = []"
  by (induction tr) (auto elim: is_io.elims)

lemma kbd_step_submissions: "kbd_step w w' \<Longrightarrow> submissions w' = submissions w"
  by (auto simp: kbd_step_def submissions_def io_no_submit)

text \<open>
  Claim C2. In a non-empty registry of \<open>N\<close> programs (at most \<open>MAX_SHADERS\<close>, the
  bound of the scan) with the active index in \<open>[0, N)\<close>, a poll that finds one press of
  the left arrow sets the index to \<open>(i - 1 + N) mod N\<close>, one press of the right arrow
  sets it to \<open>(i + 1) mod N\<close>, and each sets \<open>reload_requested\<close>; \<open>N\<close> presses of
  the right arrow, and likewise \<open>N\<close> of the left arrow, bring the index back to where
  it started.
\<close>

theorem index_stepping:
  assumes "registry_ok w" "0 \<le> fd"
  shows "(\<exists>w'. check_keyboard fd (w\<lparr>kbd_queue := [press KEY_LEFT]\<rparr>) = Returns w' \<and>
               current_shader w' = (current_shader w - 1 + shader_count w) mod shader_count w \<and>
               reload_requested w' = 1) \<and>
         (\<exists>w'. check_keyboard fd (w\<lparr>kbd_queue := [press KEY_RIGHT]\<rparr>) = Returns w' \<and>
               current_shader w' = (current_shader w + 1) mod shader_count w \<and>
               reload_requested w' = 1) \<and>
         (\<exists>w'. check_keyboard fd
                  (w\<lparr>kbd_queue := replicate (length (shaders w)) (press KEY_RIGHT)\<rparr>) = Returns w' \<and>
               current_shader w' = current_shader w) \<and>
         (\<exists>w'. check_keyboard fd
                  (w\<lparr>kbd_queue := replicate (length (shaders w)) (press KEY_LEFT)\<rparr>) = Returns w' \<and>
               current_shader w' = current_shader w)"
proof -
  let ?n = "shader_count w"
  have n: "0 < ?n" "0 \<le> current_shader w" "current_shader w < ?n"
    using assms by (auto simp: registry_ok_def shader_count_def)
  have ok: "registry_ok (w\<lparr>kbd_queue := q\<rparr>)" for q
    using assms by (simp add: registry_ok_def shader_count_def)
  have cnt: "shader_count (w\<lparr>kbd_queue := q\<rparr>) = ?n" for q
    by (simp add: shader_count_def)
  have left: "\<exists>w'. check_keyboard fd (w\<lparr>kbd_queue := [press KEY_LEFT]\<rparr>) = Returns w' \<and>
               current_shader w' = (current_shader w - 1 + ?n) mod ?n \<and> reload_requested w' = 1"
    using assms(2) key_left_eq [OF ok, of "[]"]
    by (simp add: check_keyboard_def press_def on_key_def printf_def emit_def cnt)
  have right: "\<exists>w'. check_keyboard fd (w\<lparr>kbd_queue := [press KEY_RIGHT]\<rparr>) = Returns w' \<and>
               current_shader w' = (current_shader w + 1) mod ?n \<and> reload_requested w' = 1"
    using assms(2) key_right_eq [OF ok, of "[]"]
    by (simp add: check_keyboard_def press_def on_key_def printf_def emit_def cnt
        key_codes_distinct)
  have len: "int (length (shaders w)) = ?n"
    by (simp add: shader_count_def)
  have rights: "\<exists>w'. check_keyboard fd
                  (w\<lparr>kbd_queue := replicate (length (shaders w)) (press KEY_RIGHT)\<rparr>) = Returns w' \<and>
               current_shader w' = current_shader w"
    using assms(2) n len
      read_events_right [OF ok, of "length (shaders w)" "replicate (length (shaders w)) (press KEY_RIGHT)"]
    by (auto simp: check_keyboard_def cnt)
  have lefts: "\<exists>w'. check_keyboard fd
                  (w\<lparr>kbd_queue := replicate (length (shaders w)) (press KEY_LEFT)\<rparr>) = Returns w' \<and>
               current_shader w' = current_shader w"
    using assms(2) n len
      read_events_left [OF ok, of "length (shaders w)" "replicate (length (shaders w)) (press KEY_LEFT)"]
    by (auto simp: check_keyboard_def cnt)
  from left right rights lefts show ?thesis
    by blast
qed

lemma demo_ok: "registry_ok demo"
  by (simp add: registry_ok_def demo_def shader_count_def MAX_SHADERS_def)

theorem index_stepping_witness:
  "registry_ok demo \<and> (0::int) \<le> 3 \<and>
   (\<exists>w'. check_keyboard 3 (demo\<lparr>kbd_queue := [press KEY_RIGHT]\<rparr>) = Returns w' \<and>
         current_shader w' = 1 \<and> reload_requested w' = 1) \<and>
   (\<exists>w'. check_keyboard 3 (demo\<lparr>kbd_queue := [press KEY_LEFT]\<rparr>) = Returns w' \<and>
         current_shader w' = 1 \<and> reload_requested w' = 1)"
proof -
  have c: "current_shader demo = 0" "shader_count demo = 2"
    by (simp_all add: demo_def shader_count_def)
  from index_stepping [OF demo_ok, of 3] show ?thesis
    using demo_ok by (simp add: c)
qed

lemma read_events_skip:
  assumes "ev_type ev \<noteq> EV_KEY \<or> ev_value ev \<noteq> 1 \<or>
           ev_code ev \<notin> {KEY_LEFT, KEY_RIGHT, KEY_F, KEY_ESC, KEY_Q}"
  shows "read_events (ev # q) w = read_events q (w\<lparr>kbd_queue := q\<rparr>)"
proof (cases "ev_type ev \<noteq> EV_KEY \<or> ev_value ev \<noteq> 1")
  case True
  then show ?thesis by simp
next
  case False
  with assms have "on_key (ev_code ev) (w\<lparr>kbd_queue := q\<rparr>) = Returns (w\<lparr>kbd_queue := q\<rparr>)"
    by (simp add: on_key_def)
  with False show ?thesis by simp
qed

lemma read_events_ignored:
  assumes "\<forall>e \<in> set q. ev_type e \<noteq> EV_KEY \<or> ev_value e \<noteq> 1 \<or>
             ev_code e \<notin> {KEY_LEFT, KEY_RIGHT, KEY_F, KEY_ESC, KEY_Q}"
    and "kbd_queue w = q"
  shows "read_events q w = Returns (w\<lparr>kbd_queue := []\<rparr>)"
  using assms
proof (induction q arbitrary: w)
  case Nil
  then show ?case by simp
next
  case (Cons ev q)
  let ?w1 = "w\<lparr>kbd_queue := q\<rparr>"
  from Cons.prems have rest: "\<forall>e \<in> set q. ev_type e \<noteq> EV_KEY \<or> ev_value e \<noteq> 1 \<or>
             ev_code e \<notin> {KEY_LEFT, KEY_RIGHT, KEY_F, KEY_ESC, KEY_Q}"
    by simp
  from Cons.prems have "read_events (ev # q) w = read_events q ?w1"
    by (intro read_events_skip) simp
  also have "\<dots> = Returns (?w1\<lparr>kbd_queue := []\<rparr>)"
    by (rule Cons.IH [OF rest]) simp
  finally show ?case by simp
qed

text \<open>
  Claim C7. With a keyboard open and the registry in order, one call of \<open>check_keyboard\<close>
  either returns with the event queue empty or ends the process with \<open>exit(0)\<close>. An
  event that is not a key event or whose value is not 1, and an event whose key code is
  none of left, right, F, Escape and Q, is read and changes nothing else: the call does
  what it does without that event in the queue. When no queued event is a press of one
  of the five keys, the call returns the state it was given, with the queue emptied.
\<close>

theorem poll_drains_and_filters:
  assumes "registry_ok w" "0 \<le> fd"
  shows "((\<exists>w'. check_keyboard fd w = Returns w' \<and> kbd_queue w' = []) \<or>
          (\<exists>w'. check_keyboard fd w = Exits 0 w')) \<and>
         (ev_type ev \<noteq> EV_KEY \<or> ev_value ev \<noteq> 1 \<longrightarrow>
            check_keyboard fd (w\<lparr>kbd_queue := ev # q\<rparr>) = check_keyboard fd (w\<lparr>kbd_queue := q\<rparr>)) \<and>
         (ev_code ev \<notin> {KEY_LEFT, KEY_RIGHT, KEY_F, KEY_ESC, KEY_Q} \<longrightarrow>
            check_keyboard fd (w\<lparr>kbd_queue := ev # q\<rparr>) = check_keyboard fd (w\<lparr>kbd_queue := q\<rparr>)) \<and>
         ((\<forall>e \<in> set (kbd_queue w). ev_type e \<noteq> EV_KEY \<or> ev_value e \<noteq> 1 \<or>
               ev_code e \<notin> {KEY_LEFT, KEY_RIGHT, KEY_F, KEY_ESC, KEY_Q}) \<longrightarrow>
            check_keyboard fd w = Returns (w\<lparr>kbd_queue := []\<rparr>))"
proof -
  have drained: "(\<exists>w'. check_keyboard fd w = Returns w' \<and> kbd_queue w' = []) \<or>
          (\<exists>w'. check_keyboard fd w = Exits 0 w')"
    using assms(2) read_events_outcome [OF assms(1), of "kbd_queue w"]
    by (auto simp: check_keyboard_def)
  have skip: "check_keyboard fd (w\<lparr>kbd_queue := ev # q\<rparr>) = check_keyboard fd (w\<lparr>kbd_queue := q\<rparr>)"
    if "ev_type ev \<noteq> EV_KEY \<or> ev_value ev \<noteq> 1 \<or>
        ev_code ev \<notin> {KEY_LEFT, KEY_RIGHT, KEY_F, KEY_ESC, KEY_Q}"
    using assms(2) read_events_skip [OF that, of q "w\<lparr>kbd_queue := ev # q\<rparr>"]
    by (simp add: check_keyboard_def)
  have ignored: "check_keyboard fd w = Returns (w\<lparr>kbd_queue := []\<rparr>)"
    if "\<forall>e \<in> set (kbd_queue w). ev_type e \<noteq> EV_KEY \<or> ev_value e \<noteq> 1 \<or>
               ev_code e \<notin> {KEY_LEFT, KEY_RIGHT, KEY_F, KEY_ESC, KEY_Q}"
    using assms(2) read_events_ignored [OF that] by (simp add: check_keyboard_def)
  from drained skip ignored show ?thesis
    by blast
qed

theorem poll_drains_and_filters_witness:
  "registry_ok demo \<and> (0::int) \<le> 3 \<and>
   ev_value (key_release KEY_A) \<noteq> 1 \<and>
   ev_code (press KEY_A) \<notin> {KEY_LEFT, KEY_RIGHT, KEY_F, KEY_ESC, KEY_Q} \<and>
   check_keyboard 3 (demo\<lparr>kbd_queue := [key_release KEY_A, press KEY_A]\<rparr>) =
     Returns (demo\<lparr>kbd_queue := []\<rparr>) \<and>
   check_keyboard 3 (demo\<lparr>kbd_queue := [key_release KEY_A, press KEY_LEFT]\<rparr>) =
     check_keyboard 3 (demo\<lparr>kbd_queue := [press KEY_LEFT]\<rparr>) \<and>
   check_keyboard 3 (demo\<lparr>kbd_queue := [press KEY_A, press KEY_LEFT]\<rparr>) =
     check_keyboard 3 (demo\<lparr>kbd_queue := [press KEY_LEFT]\<rparr>)"
proof -
  have h: "ev_value (key_release KEY_A) \<noteq> 1"
    "ev_code (press KEY_A) \<notin> {KEY_LEFT, KEY_RIGHT, KEY_F, KEY_ESC, KEY_Q}"
    by (simp_all add: key_release_def press_def KEY_A_def KEY_LEFT_def KEY_RIGHT_def KEY_F_def
        KEY_ESC_def KEY_Q_def)
  have ok: "registry_ok (demo\<lparr>kbd_queue := [key_release KEY_A, press KEY_A]\<rparr>)"
    using demo_ok by (simp add: registry_ok_def shader_count_def)
  from poll_drains_and_filters [OF ok, of 3]
    poll_drains_and_filters [OF demo_ok, of 3 "key_release KEY_A" "[press KEY_LEFT]"]
    poll_drains_and_filters [OF demo_ok, of 3 "press KEY_A" "[press KEY_LEFT]"]
  show ?thesis
    using demo_ok h by simp
qed

lemma extends_refl: "extends P w w"
  by (simp add: extends_def)

lemma extends_trans:
  assumes "extends P w w'" "extends P w' w''"
  shows "extends P w w''"
proof -
  from assms obtain t1 t2 where
    "trace w' = trace w @ t1" "list_all P t1" "trace w'' = trace w' @ t2" "list_all P t2"
    by (auto simp: extends_def)
  then have "trace w'' = trace w @ (t1 @ t2) \<and> list_all P (t1 @ t2)"
    by simp
  then show ?thesis
    unfolding extends_def by blast
qed

lemma extends_emit: "P e \<Longrightarrow> extends P w (emit e w)"
  by (simp add: extends_def emit_def)

lemma extends_mono:
  assumes "extends P w w'" "\<And>e. P e \<Longrightarrow> Q e"
  shows "extends Q w w'"
  using assms by (auto simp: extends_def list_all_iff)

lemma and_then_final:
  assumes "R w (final m)" "\<And>w1. m = Returns w1 \<Longrightarrow> R w (final (f w1))"
  shows "R w (final (and_then m f))"
  using assms by (cases m) (simp_all add: and_then_def)

lemma and_then_Returns:
  "and_then m f = Returns w' \<longleftrightarrow> (\<exists>w1. m = Returns w1 \<and> f w1 = Returns w')"
  by (cases m) (simp_all add: and_then_def)

lemma reload_frame_refl: "reload_frame w w"
  by (simp add: reload_frame_def)

lemma reload_frame_trans: "reload_frame w w' \<Longrightarrow> reload_frame w' w'' \<Longrightarrow> reload_frame w w''"
  by (simp add: reload_frame_def)

lemma and_then_step:
  assumes "R w (final m)" and "\<And>w1. R w1 (final (f w1))"
    and "\<And>a b c. R a b \<Longrightarrow> R b c \<Longrightarrow> R a c"
  shows "R w (final (and_then m f))"
proof (cases m)
  case (Returns w1)
  with assms(1) have "R w w1" by simp
  from assms(3) [OF this assms(2) [of w1]] Returns show ?thesis
    by (simp add: and_then_def)
qed (use assms(1) in \<open>simp_all add: and_then_def\<close>)

lemma fixed_shape_eq:
  assumes "W w' = W w" "H w' = H w" "pipelineLayout w' = pipelineLayout w"
    "renderPass_h w' = renderPass_h w"
  shows "fixed_shape w' = fixed_shape w"
  using assms by (simp add: fixed_shape_def blank_def pipeline_create_info_def)

lemma reload_frame_shape: "reload_frame w w' \<Longrightarrow> fixed_shape w' = fixed_shape w"
  by (rule fixed_shape_eq) (simp_all add: reload_frame_def)

lemma reload_step_refl: "reload_step w w"
  by (simp add: reload_step_def reload_frame_refl extends_refl)

lemma reload_step_trans:
  assumes "reload_step w w'" "reload_step w' w''"
  shows "reload_step w w''"
proof -
  have "fixed_shape w' = fixed_shape w"
    using assms(1) by (simp add: reload_step_def reload_frame_shape)
  with assms show ?thesis
    by (auto simp: reload_step_def intro: reload_frame_trans extends_trans)
qed

lemma rs_and_then:
  assumes "reload_step w (final m)" "\<And>w1. reload_step w1 (final (f w1))"
  shows "reload_step w (final (and_then m f))"
  using assms(1) by (rule and_then_step) (rule assms(2), erule (1) reload_step_trans)

lemma reload_step_emit:
  assumes "reload_effect (fixed_shape w) e"
  shows "reload_step w (emit e w)"
  using assms by (simp add: reload_step_def extends_emit) (simp add: reload_frame_def emit_def)

lemma reload_step_printf: "reload_step w (printf m w)"
  unfolding printf_def by (rule reload_step_emit) (simp add: reload_effect_def)

lemma reload_step_update:
  assumes "reload_frame w w'" "trace w' = trace w"
  shows "reload_step w w'"
  using assms by (simp add: reload_step_def extends_def)

lemma vkDestroyPipeline_step: "reload_step w (final (vkDestroyPipeline h w))"
proof (cases "h \<in> dom (dev_pipelines w)")
  case True
  let ?w1 = "w\<lparr>dev_pipelines := (dev_pipelines w)(h := None)\<rparr>"
  have "reload_step w ?w1"
    by (rule reload_step_update) (simp_all add: reload_frame_def)
  moreover have "reload_step ?w1 (emit (DestroyPipeline h) ?w1)"
    by (rule reload_step_emit) (simp add: reload_effect_def)
  ultimately show ?thesis
    using True by (simp add: vkDestroyPipeline_def reload_step_trans)
next
  case False
  then show ?thesis
    by (simp add: vkDestroyPipeline_def reload_step_refl)
qed

lemma vkDestroyShaderModule_step: "reload_step w (final (vkDestroyShaderModule h w))"
proof (cases "h \<in> dom (dev_modules w)")
  case True
  let ?w1 = "w\<lparr>dev_modules := (dev_modules w)(h := None)\<rparr>"
  have "reload_step w ?w1"
    by (rule reload_step_update) (simp_all add: reload_frame_def)
  moreover have "reload_step ?w1 (emit (DestroyShaderModule h) ?w1)"
    by (rule reload_step_emit) (simp add: reload_effect_def)
  ultimately show ?thesis
    using True by (simp add: vkDestroyShaderModule_def reload_step_trans)
next
  case False
  then show ?thesis
    by (simp add: vkDestroyShaderModule_def reload_step_refl)
qed

lemma destroy_old_step: "reload_step w (final (destroy_old w))"
  unfolding destroy_old_def
  by (intro rs_and_then)
    (simp_all add: reload_step_refl vkDestroyPipeline_step vkDestroyShaderModule_step)

lemma VK_CHECK_step: "reload_step w (final (VK_CHECK r w))"
  by (simp add: VK_CHECK_def reload_step_refl reload_step_printf)

lemma create_vm_step: "reload_step w (final (create_vm r code w))"
  unfolding create_vm_def
proof (rule rs_and_then, rule VK_CHECK_step)
  fix w1 :: world
  let ?h = "next_handle w1"
  let ?w2 = "w1\<lparr>vm := ?h, dev_modules := (dev_modules w1)(?h \<mapsto> code), next_handle := ?h + 1\<rparr>"
  have "reload_step w1 ?w2"
    by (rule reload_step_update) (simp_all add: reload_frame_def)
  moreover have "reload_step ?w2 (emit (CreateShaderModule ?h) ?w2)"
    by (rule reload_step_emit) (simp add: reload_effect_def)
  ultimately show "reload_step w1 (final (let h = next_handle w1 in Returns (emit (CreateShaderModule h)
            (w1\<lparr>vm := h, dev_modules := (dev_modules w1)(h \<mapsto> code), next_handle := h + 1\<rparr>))))"
    by (simp add: Let_def reload_step_trans)
qed

lemma create_fm_step: "reload_step w (final (create_fm r code w))"
  unfolding create_fm_def
proof (rule rs_and_then, rule VK_CHECK_step)
  fix w1 :: world
  let ?h = "next_handle w1"
  let ?w2 = "w1\<lparr>fm := ?h, dev_modules := (dev_modules w1)(?h \<mapsto> code), next_handle := ?h + 1\<rparr>"
  have "reload_step w1 ?w2"
    by (rule reload_step_update) (simp_all add: reload_frame_def)
  moreover have "reload_step ?w2 (emit (CreateShaderModule ?h) ?w2)"
    by (rule reload_step_emit) (simp add: reload_effect_def)
  ultimately show "reload_step w1 (final (let h = next_handle w1 in Returns (emit (CreateShaderModule h)
            (w1\<lparr>fm := h, dev_modules := (dev_modules w1)(h \<mapsto> code), next_handle := h + 1\<rparr>))))"
    by (simp add: Let_def reload_step_trans)
qed

lemma create_pipeline_step: "reload_step w (final (create_pipeline r w))"
  unfolding create_pipeline_def
proof (rule rs_and_then, rule VK_CHECK_step)
  fix w1 :: world
  let ?h = "next_handle w1"
  let ?w2 = "w1\<lparr>pipeline := ?h,
               dev_pipelines := (dev_pipelines w1)(?h \<mapsto> pipeline_create_info w1),
               next_handle := ?h + 1\<rparr>"
  have f: "reload_frame w1 ?w2"
    by (simp add: reload_frame_def)
  have "reload_step w1 ?w2"
    using f by (rule reload_step_update) simp
  moreover have "reload_step ?w2 (emit (CreateGraphicsPipelines ?h (pipeline_create_info w1)) ?w2)"
  proof (rule reload_step_emit)
    have sh: "fixed_shape ?w2 = blank (pipeline_create_info w1)"
      using reload_frame_shape [OF f] by (simp only: fixed_shape_def)
    show "reload_effect (fixed_shape ?w2) (CreateGraphicsPipelines ?h (pipeline_create_info w1))"
      unfolding sh by (simp add: reload_effect_def)
  qed
  ultimately show "reload_step w1 (final (let h = next_handle w1
       in Returns (emit (CreateGraphicsPipelines h (pipeline_create_info w1))
            (w1\<lparr>pipeline := h,
               dev_pipelines := (dev_pipelines w1)(h \<mapsto> pipeline_create_info w1),
               next_handle := h + 1\<rparr>))))"
    by (simp add: Let_def reload_step_trans)
qed

lemma load_new_step: "reload_step w (final (load_new env w))"
proof (cases "shader_at w (current_shader w)")
  case None
  then show ?thesis
    by (simp add: load_new_def reload_step_refl)
next
  case (Some s)
  have failed: "reload_step w (emit (Sleep 1) (printf (MsgFailedToLoad (name s)) w))"
    by (rule reload_step_trans [OF reload_step_printf])
      (rule reload_step_emit, simp add: reload_effect_def)
  show ?thesis
  proof (cases "load_spv env (vert_path s)")
    case None
    with Some failed show ?thesis
      by (simp add: load_new_def)
  next
    case vc: (Some vc)
    show ?thesis
    proof (cases "load_spv env (frag_path s)")
      case None
      with Some vc failed show ?thesis
        by (simp add: load_new_def)
    next
      case fc: (Some fc)
      have last: "reload_step w1 ((printf (MsgLoaded (name s)) w1)
                   \<lparr>reload_requested := 0, start := clock_loaded env, frames := 0,
                    built_for := current_shader w1\<rparr>)" for w1
        by (rule reload_step_trans [OF reload_step_printf])
          (rule reload_step_update, simp_all add: reload_frame_def)
      have "reload_step w (final (
               and_then (create_vm (vk_vert_module env) vc w) (\<lambda>w.
               and_then (create_fm (vk_frag_module env) fc w) (\<lambda>w.
               and_then (create_pipeline (vk_pipeline env) w) (\<lambda>w.
                 Returns ((printf (MsgLoaded (name s)) w)
                   \<lparr>reload_requested := 0, start := clock_loaded env, frames := 0,
                    built_for := current_shader w\<rparr>))))))"
        by (intro rs_and_then create_vm_step create_fm_step create_pipeline_step)
          (simp add: last)
      with Some vc fc show ?thesis
        by (simp add: load_new_def)
    qed
  qed
qed

lemma reload_step: "reload_step w (final (reload env w))"
  unfolding reload_def
  by (intro rs_and_then destroy_old_step load_new_step)

lemma draw_frame_effect: "draw_frame w w' \<Longrightarrow> draw_effect w' = draw_effect w"
  by (intro ext)
    (simp add: draw_effect_def draw_frame_def frame_commands_def fixed_shape_def blank_def
      pipeline_create_info_def)

lemma draw_step_refl: "draw_step w w"
  by (simp add: draw_step_def draw_frame_def extends_refl)

lemma draw_step_trans:
  assumes "draw_step w w'" "draw_step w' w''"
  shows "draw_step w w''"
proof -
  have "draw_effect w' = draw_effect w"
    using assms(1) by (simp add: draw_step_def draw_frame_effect)
  moreover have "draw_frame w w''"
    using assms by (simp add: draw_step_def draw_frame_def)
  ultimately show ?thesis
    using assms by (auto simp: draw_step_def intro: extends_trans)
qed

lemma ds_and_then:
  assumes "draw_step w (final m)" "\<And>w1. draw_step w1 (final (f w1))"
  shows "draw_step w (final (and_then m f))"
  using assms(1) by (rule and_then_step) (rule assms(2), erule (1) draw_step_trans)

lemma draw_step_emit:
  assumes "draw_effect w e"
  shows "draw_step w (emit e w)"
  using assms by (simp add: draw_step_def extends_emit) (simp add: draw_frame_def emit_def)

lemma draw_step_printf: "draw_step w (printf m w)"
  unfolding printf_def by (rule draw_step_emit) (simp add: draw_effect_def)

lemma draw_step_update:
  assumes "draw_frame w w'" "trace w' = trace w"
  shows "draw_step w w'"
  using assms by (simp add: draw_step_def extends_def)

lemma VK_CHECK_draw: "draw_step w (final (VK_CHECK r w))"
  by (simp add: VK_CHECK_def draw_step_refl draw_step_printf)

lemma submit_and_wait_step: "draw_step w (final (submit_and_wait env w))"
proof (cases "pipeline w \<in> dom (dev_pipelines w)")
  case False
  then show ?thesis
    by (simp add: submit_and_wait_def draw_step_refl)
next
  case True
  have sub: "draw_step w1 (emit (QueueSubmit (frame_commands w1)) w1)" for w1
    by (rule draw_step_emit) (simp add: draw_effect_def frame_commands_def)
  have wait: "draw_step w1 (emit WaitForFences w1)" for w1
    by (rule draw_step_emit) (simp add: draw_effect_def)
  have "draw_step w (final (
        and_then (VK_CHECK (vk_submit env) w) (\<lambda>w.
        and_then (VK_CHECK (vk_wait env) (emit (QueueSubmit (frame_commands w)) w)) (\<lambda>w.
          Returns (emit WaitForFences w)))))"
    by (intro ds_and_then VK_CHECK_draw draw_step_trans [OF sub VK_CHECK_draw]) (simp add: wait)
  with True show ?thesis
    by (simp add: submit_and_wait_def)
qed

lemma present_step: "draw_step w (final (present env w))"
proof (cases "gbm_bo_map env")
  case None
  then show ?thesis
    by (simp add: present_def draw_step_refl)
next
  case (Some gbmStride)
  show ?thesis
  proof (cases "copy_rows (W w) (H w) gbmStride (rowPitch w) (rt_mem env) 0 (scanout w)")
    case None
    with Some show ?thesis
      by (simp add: present_def draw_step_refl)
  next
    case (Some dst)
    have "draw_step w (w\<lparr>scanout := dst\<rparr>)"
      by (rule draw_step_update) (simp_all add: draw_frame_def)
    with Some \<open>gbm_bo_map env = Some gbmStride\<close> show ?thesis
      by (simp add: present_def)
  qed
qed

lemma count_frame_step: "draw_step w (final (count_frame t w))"
proof -
  let ?w1 = "w\<lparr>frames := int32 (frames w + 1)\<rparr>"
  have a: "draw_step w ?w1"
    by (rule draw_step_update) (simp_all add: draw_frame_def)
  have "draw_step ?w1 (final (if frames ?w1 smod 60 = 0
         then (case shader_at ?w1 (current_shader ?w1) of
                 None \<Rightarrow> Traps ?w1
               | Some s \<Rightarrow> Returns (printf (MsgFps t (frames ?w1) (name s)) ?w1))
         else Returns ?w1))"
    by (simp add: draw_step_refl draw_step_printf split: option.splits)
  from draw_step_trans [OF a this] show ?thesis
    by (simp add: count_frame_def Let_def)
qed

lemma draw_draw_step: "draw_step w (final (draw env t w))"
proof -
  let ?w1 = "w\<lparr>ubo_mem := Some \<lparr>iResolution = [uint (W w), uint (H w), 1],
                                      iTime = t, iMouse = [0, 0, 0, 0]\<rparr>\<rparr>"
  have a: "draw_step w ?w1"
    by (rule draw_step_update) (simp_all add: draw_frame_def)
  have dirty: "draw_step w1 (emit DirtyFB w1)" for w1
    by (rule draw_step_emit) (simp add: draw_effect_def)
  have "draw_step ?w1 (final (draw env t w))"
    unfolding draw_def
    by (intro ds_and_then submit_and_wait_step present_step
        draw_step_trans [OF dirty count_frame_step])
  with a show ?thesis
    by (rule draw_step_trans)
qed

lemma loop_static_shape: "loop_static w w' \<Longrightarrow> fixed_shape w' = fixed_shape w"
  by (rule fixed_shape_eq) (simp_all add: loop_static_def)

lemma iter_step_refl: "iter_step w w"
  by (simp add: iter_step_def loop_static_def extends_refl)

lemma iter_step_trans:
  assumes "iter_step w w'" "iter_step w' w''"
  shows "iter_step w w''"
proof -
  have "fixed_shape w' = fixed_shape w"
    using assms(1) by (simp add: iter_step_def loop_static_shape)
  moreover have "loop_static w w''"
    using assms by (simp add: iter_step_def loop_static_def)
  ultimately show ?thesis
    using assms by (auto simp: iter_step_def intro: extends_trans)
qed

lemma is_and_then:
  assumes "iter_step w (final m)" "\<And>w1. iter_step w1 (final (f w1))"
  shows "iter_step w (final (and_then m f))"
  using assms(1) by (rule and_then_step) (rule assms(2), erule (1) iter_step_trans)

lemma io_shape_ok: "is_io e \<Longrightarrow> shape_ok S e"
  by (cases e) simp_all

lemma kbd_step_iter: "kbd_step w w' \<Longrightarrow> iter_step w w'"
  unfolding kbd_step_def iter_step_def
  by (auto simp: kbd_frame_def loop_static_def extends_def list_all_iff io_shape_ok)

lemma reload_step_iter: "reload_step w w' \<Longrightarrow> iter_step w w'"
  unfolding reload_step_def iter_step_def
  by (auto simp: reload_frame_def loop_static_def reload_effect_def elim: extends_mono)

lemma draw_step_iter: "draw_step w w' \<Longrightarrow> iter_step w w'"
  unfolding draw_step_def iter_step_def
  by (auto simp: draw_frame_def loop_static_def draw_effect_def elim: extends_mono)

lemma render_frame_iter: "iter_step w (final (render_frame env w))"
  unfolding render_frame_def Let_def
  by (intro is_and_then kbd_step_iter check_keyboard_step draw_step_iter draw_draw_step)

lemma arrivals_iter: "iter_step w (w\<lparr>kbd_queue := q\<rparr>)"
  by (simp add: iter_step_def loop_static_def extends_def)

lemma main_iteration_iter: "iter_step w (final (main_iteration env w))"
proof -
  let ?w0 = "w\<lparr>kbd_queue := kbd_queue w @ arrivals env\<rparr>"
  have a: "iter_step ?w0 (final (and_then (reload env ?w0) (render_frame env)))"
    by (rule is_and_then) (rule reload_step_iter, rule reload_step, rule render_frame_iter)
  have b: "iter_step ?w0 (final (render_frame env ?w0))"
    by (rule render_frame_iter)
  have "iter_step ?w0 (final (main_iteration env w))"
    using a b by (simp add: main_iteration_def Let_def)
  with arrivals_iter show ?thesis
    by (rule iter_step_trans)
qed

lemma main_loop_iter: "iter_step w (final (main_loop envs w))"
proof (induction envs arbitrary: w)
  case Nil
  show ?case by (simp add: iter_step_refl)
next
  case (Cons env envs)
  have step: "iter_step w (final (main_iteration env w))"
    by (rule main_iteration_iter)
  show ?case
  proof (cases "main_iteration env w")
    case (Returns w')
    with step iter_step_trans [OF _ Cons.IH [of w']] show ?thesis by simp
  next
    case (Continues w')
    with step iter_step_trans [OF _ Cons.IH [of w']] show ?thesis by simp
  next
    case (Exits c w')
    with step show ?thesis by simp
  next
    case (Traps w')
    with step show ?thesis by simp
  qed
qed

lemma extends_new_effects: "extends P w w' \<Longrightarrow> list_all P (new_effects w w')"
  by (auto simp: extends_def new_effects_def)

lemma blank_fields:
  assumes "blank info = blank info'"
  shows "vertexBindingDescriptionCount info = vertexBindingDescriptionCount info'"
    "vertexAttributeDescriptionCount info = vertexAttributeDescriptionCount info'"
    "topology info = topology info'"
    "attachmentCount info = attachmentCount info'"
    "pDepthStencilState info = pDepthStencilState info'"
    "pAttachments info = pAttachments info'"
    "pViewports info = pViewports info'"
    "pScissors info = pScissors info'"
    "stageCount info = stageCount info'"
    "map stage (pStages info) = map stage (pStages info')"
proof -
  have "f (blank info) = f (blank info')" for f :: "VkGraphicsPipelineCreateInfo \<Rightarrow> 'b"
    using assms by simp
  note eq = this
  show "vertexBindingDescriptionCount info = vertexBindingDescriptionCount info'"
    using eq [of vertexBindingDescriptionCount] by (simp add: blank_def)
  show "vertexAttributeDescriptionCount info = vertexAttributeDescriptionCount info'"
    using eq [of vertexAttributeDescriptionCount] by (simp add: blank_def)
  show "topology info = topology info'"
    using eq [of topology] by (simp add: blank_def)
  show "attachmentCount info = attachmentCount info'"
    using eq [of attachmentCount] by (simp add: blank_def)
  show "pDepthStencilState info = pDepthStencilState info'"
    using eq [of pDepthStencilState] by (simp add: blank_def)
  show "pAttachments info = pAttachments info'"
    using eq [of pAttachments] by (simp add: blank_def)
  show "pViewports info = pViewports info'"
    using eq [of pViewports] by (simp add: blank_def)
  show "pScissors info = pScissors info'"
    using eq [of pScissors] by (simp add: blank_def)
  show "stageCount info = stageCount info'"
    using eq [of stageCount] by (simp add: blank_def)
  have "map stage (pStages (blank info)) = map stage (pStages (blank info'))"
    using assms by simp
  then show "map stage (pStages info) = map stage (pStages info')"
    by (simp add: blank_def comp_def)
qed

text \<open>
  Claim C4. Over any number of loop iterations, from any state and with any input
  (so for every program and every sequence of switches), each pipeline the loop creates
  has the same construction parameters once the two shader module handles are blanked
  out: they are those of the display size and the two fixed handles alone. There are no
  vertex bindings or attributes, the topology is the triangle list, there is one colour
  attachment without blending and no depth/stencil state, and the one viewport and the
  one scissor cover \<open>W\<close> by \<open>H\<close>. Each submitted command buffer holds exactly one draw,
  of 6 vertices and 1 instance.
\<close>

theorem pipeline_shape_is_fixed:
  "\<forall>e \<in> set (new_effects w (final (main_loop envs w))).
     (\<forall>h info. e = CreateGraphicsPipelines h info \<longrightarrow>
        blank info = blank (pipeline_create_info w) \<and>
        vertexBindingDescriptionCount info = 0 \<and>
        vertexAttributeDescriptionCount info = 0 \<and>
        topology info = VK_PRIMITIVE_TOPOLOGY_TRIANGLE_LIST \<and>
        attachmentCount info = 1 \<and>
        map blendEnable (pAttachments info) = [False] \<and>
        pDepthStencilState info = None \<and>
        pViewports info = [\<lparr>vp_x = 0, vp_y = 0, vp_width = uint (W w), vp_height = uint (H w),
                             minDepth = 0, maxDepth = 1\<rparr>] \<and>
        pScissors info = [\<lparr>offset_x = 0, offset_y = 0, extent_width = W w,
                            extent_height = H w\<rparr>] \<and>
        map stage (pStages info) = [VK_SHADER_STAGE_VERTEX_BIT, VK_SHADER_STAGE_FRAGMENT_BIT]) \<and>
     (\<forall>cmds. e = QueueSubmit cmds \<longrightarrow> filter is_draw cmds = [CmdDraw 6 1 0 0])"
proof
  fix e
  assume e: "e \<in> set (new_effects w (final (main_loop envs w)))"
  have "list_all (shape_ok (fixed_shape w)) (new_effects w (final (main_loop envs w)))"
    using main_loop_iter [of w envs] by (simp add: iter_step_def extends_new_effects)
  with e have ok: "shape_ok (fixed_shape w) e"
    by (simp add: list_all_iff)
  show "(\<forall>h info. e = CreateGraphicsPipelines h info \<longrightarrow>
        blank info = blank (pipeline_create_info w) \<and>
        vertexBindingDescriptionCount info = 0 \<and>
        vertexAttributeDescriptionCount info = 0 \<and>
        topology info = VK_PRIMITIVE_TOPOLOGY_TRIANGLE_LIST \<and>
        attachmentCount info = 1 \<and>
        map blendEnable (pAttachments info) = [False] \<and>
        pDepthStencilState info = None \<and>
        pViewports info = [\<lparr>vp_x = 0, vp_y = 0, vp_width = uint (W w), vp_height = uint (H w),
                             minDepth = 0, maxDepth = 1\<rparr>] \<and>
        pScissors info = [\<lparr>offset_x = 0, offset_y = 0, extent_width = W w,
                            extent_height = H w\<rparr>] \<and>
        map stage (pStages info) = [VK_SHADER_STAGE_VERTEX_BIT, VK_SHADER_STAGE_FRAGMENT_BIT]) \<and>
     (\<forall>cmds. e = QueueSubmit cmds \<longrightarrow> filter is_draw cmds = [CmdDraw 6 1 0 0])"
  proof (intro conjI allI impI)
    fix h info
    assume "e = CreateGraphicsPipelines h info"
    with ok have b: "blank info = blank (pipeline_create_info w)"
      by (simp add: fixed_shape_def)
    show "blank info = blank (pipeline_create_info w)"
      by (rule b)
    show "vertexBindingDescriptionCount info = 0"
      using blank_fields(1) [OF b] by (simp add: pipeline_create_info_def)
    show "vertexAttributeDescriptionCount info = 0"
      using blank_fields(2) [OF b] by (simp add: pipeline_create_info_def)
    show "topology info = VK_PRIMITIVE_TOPOLOGY_TRIANGLE_LIST"
      using blank_fields(3) [OF b] by (simp add: pipeline_create_info_def)
    show "attachmentCount info = 1"
      using blank_fields(4) [OF b] by (simp add: pipeline_create_info_def)
    show "map blendEnable (pAttachments info) = [False]"
      using blank_fields(6) [OF b] by (simp add: pipeline_create_info_def)
    show "pDepthStencilState info = None"
      using blank_fields(5) [OF b] by (simp add: pipeline_create_info_def)
    show "pViewports info = [\<lparr>vp_x = 0, vp_y = 0, vp_width = uint (W w), vp_height = uint (H w),
                             minDepth = 0, maxDepth = 1\<rparr>]"
      using blank_fields(7) [OF b] by (simp add: pipeline_create_info_def)
    show "pScissors info = [\<lparr>offset_x = 0, offset_y = 0, extent_width = W w,
                            extent_height = H w\<rparr>]"
      using blank_fields(8) [OF b] by (simp add: pipeline_create_info_def)
    show "map stage (pStages info) = [VK_SHADER_STAGE_VERTEX_BIT, VK_SHADER_STAGE_FRAGMENT_BIT]"
      using blank_fields(10) [OF b] by (simp add: pipeline_create_info_def)
  next
    fix cmds
    assume "e = QueueSubmit cmds"
    with ok show "filter is_draw cmds = [CmdDraw 6 1 0 0]"
      by simp
  qed
qed

lemma extends_no_submit: "extends no_submit w w' \<Longrightarrow> submissions w' = submissions w"
  by (auto simp: extends_def submissions_def no_submit_def list_all_iff filter_empty_conv)

lemma reload_no_submit: "extends no_submit w (final (reload env w))"
  using reload_step [of w env]
  by (auto simp: reload_step_def reload_effect_def no_submit_def elim: extends_mono)

lemma reload_registry_ok:
  assumes "registry_ok w" "reload_frame w w'"
  shows "registry_ok w'"
  using assms by (simp add: registry_ok_def reload_frame_def shader_count_def)

text \<open>where an iteration stands when it reaches the keyboard poll\<close>

lemma main_iteration_cases:
  fixes env w
  defines "w0 \<equiv> w\<lparr>kbd_queue := kbd_queue w @ arrivals env\<rparr>"
  shows "(reload_requested w = 0 \<and> pipeline w \<noteq> VK_NULL_HANDLE \<and>
            main_iteration env w = render_frame env w0) \<or>
         ((reload_requested w \<noteq> 0 \<or> pipeline w = VK_NULL_HANDLE) \<and>
            (\<exists>w1. reload env w0 = Returns w1 \<and> main_iteration env w = render_frame env w1)) \<or>
         ((reload_requested w \<noteq> 0 \<or> pipeline w = VK_NULL_HANDLE) \<and>
            (\<forall>w1. reload env w0 \<noteq> Returns w1) \<and> main_iteration env w = reload env w0)"
proof (cases "reload_requested w \<noteq> 0 \<or> pipeline w = VK_NULL_HANDLE")
  case False
  then show ?thesis
    by (simp add: main_iteration_def Let_def w0_def)
next
  case True
  then have m: "main_iteration env w = and_then (reload env w0) (render_frame env)"
    by (auto simp: main_iteration_def Let_def w0_def)
  show ?thesis
  proof (cases "reload env w0")
    case (Returns w1)
    with m True show ?thesis by (simp add: and_then_def)
  next
    case (Continues w1)
    with m True show ?thesis by (simp add: and_then_def)
  next
    case (Exits c w1)
    with m True show ?thesis by (simp add: and_then_def)
  next
    case (Traps w1)
    with m True show ?thesis by (simp add: and_then_def)
  qed
qed

lemma render_frame_exit:
  assumes "registry_ok w" "0 \<le> kbd_fd w" "\<exists>ev \<in> set (kbd_queue w). exit_press ev"
  shows "\<exists>w'. render_frame env w = Exits 0 w' \<and> check_keyboard (kbd_fd w) w = Exits 0 w' \<and>
              submissions w' = submissions w"
proof -
  from read_events_exit [OF assms(1) refl assms(3)] obtain w'
    where r: "read_events (kbd_queue w) w = Exits 0 w'"
    by blast
  with assms(2) have k: "check_keyboard (kbd_fd w) w = Exits 0 w'"
    by (simp add: check_keyboard_def)
  have "kbd_step w (final (check_keyboard (kbd_fd w) w))"
    by (rule check_keyboard_step)
  with k have "submissions w' = submissions w"
    by (simp add: kbd_step_submissions)
  with k show ?thesis
    by (simp add: render_frame_def Let_def and_then_def)
qed

text \<open>
  Claim C9. When a press of Escape or Q is in the queue (or arrives before the poll), the
  keyboard is open and the registry is in order: the next call of \<open>check_keyboard\<close> ends
  the process with \<open>exit(0)\<close>; the iteration never reaches its end; nothing is submitted
  to the queue of the device in that iteration; whenever the iteration reaches the poll
  (no reload was due, or the reload succeeded) it ends in \<open>exit(0)\<close>; and the loop stops
  at an exit whatever would come after.
\<close>

theorem exit_before_submission:
  assumes "registry_ok w" "0 \<le> kbd_fd w"
    and "\<exists>ev \<in> set (kbd_queue w @ arrivals env). exit_press ev"
  shows "(\<exists>w'. check_keyboard (kbd_fd w) (w\<lparr>kbd_queue := kbd_queue w @ arrivals env\<rparr>) = Exits 0 w' \<and>
               submissions w' = submissions w) \<and>
         (\<forall>w'. main_iteration env w \<noteq> Returns w') \<and>
         submissions (final (main_iteration env w)) = submissions w \<and>
         (reload_requested w = 0 \<and> pipeline w \<noteq> VK_NULL_HANDLE \<longrightarrow>
            (\<exists>w'. main_iteration env w = Exits 0 w')) \<and>
         (\<forall>w1. reload env (w\<lparr>kbd_queue := kbd_queue w @ arrivals env\<rparr>) = Returns w1 \<longrightarrow>
            (\<exists>w'. main_iteration env w = Exits 0 w')) \<and>
         (\<forall>c w' envs. main_iteration env w = Exits c w' \<longrightarrow>
            main_loop (env # envs) w = Exits c w')"
proof -
  let ?w0 = "w\<lparr>kbd_queue := kbd_queue w @ arrivals env\<rparr>"
  have ok0: "registry_ok ?w0" "0 \<le> kbd_fd ?w0" "\<exists>ev \<in> set (kbd_queue ?w0). exit_press ev"
    using assms by (simp_all add: registry_ok_def shader_count_def)
  have sub0: "submissions ?w0 = submissions w"
    by (simp add: submissions_def)
  from render_frame_exit [OF ok0] obtain wx where
    wx: "render_frame env ?w0 = Exits 0 wx" "check_keyboard (kbd_fd ?w0) ?w0 = Exits 0 wx"
      "submissions wx = submissions ?w0"
    by blast
  have poll: "\<exists>w'. check_keyboard (kbd_fd w) ?w0 = Exits 0 w' \<and> submissions w' = submissions w"
    using wx sub0 by simp
  have after_reload: "\<exists>w'. render_frame env w1 = Exits 0 w' \<and> submissions w' = submissions w"
    if "reload env ?w0 = Returns w1" for w1
  proof -
    have "reload_step ?w0 (final (reload env ?w0))"
      by (rule reload_step)
    with that have f: "reload_frame ?w0 w1"
      by (simp add: reload_step_def)
    have ok1: "registry_ok w1"
      using ok0(1) f by (rule reload_registry_ok)
    have k1: "0 \<le> kbd_fd w1" "\<exists>ev \<in> set (kbd_queue w1). exit_press ev"
      using f ok0 by (simp_all add: reload_frame_def)
    have "submissions w1 = submissions ?w0"
      using reload_no_submit [of ?w0 env] that by (simp add: extends_no_submit)
    with render_frame_exit [OF ok1 k1, of env] sub0 show ?thesis
      by auto
  qed
  have skipped_sub: "submissions (final (reload env ?w0)) = submissions w"
    using reload_no_submit [of ?w0 env] sub0 by (simp add: extends_no_submit)
  from main_iteration_cases [of w env] consider
      (direct) "reload_requested w = 0" "pipeline w \<noteq> VK_NULL_HANDLE"
        "main_iteration env w = render_frame env ?w0"
    | (reloaded) w1 where "reload env ?w0 = Returns w1"
        "reload_requested w \<noteq> 0 \<or> pipeline w = VK_NULL_HANDLE"
        "main_iteration env w = render_frame env w1"
    | (skipped) "\<forall>w1. reload env ?w0 \<noteq> Returns w1"
        "reload_requested w \<noteq> 0 \<or> pipeline w = VK_NULL_HANDLE"
        "main_iteration env w = reload env ?w0"
    by blast
  then have main: "(\<forall>w'. main_iteration env w \<noteq> Returns w') \<and>
         submissions (final (main_iteration env w)) = submissions w \<and>
         (reload_requested w = 0 \<and> pipeline w \<noteq> VK_NULL_HANDLE \<longrightarrow>
            (\<exists>w'. main_iteration env w = Exits 0 w')) \<and>
         (\<forall>w1. reload env ?w0 = Returns w1 \<longrightarrow> (\<exists>w'. main_iteration env w = Exits 0 w'))"
  proof cases
    case direct
    with wx sub0 show ?thesis
      by (auto simp: main_iteration_def Let_def and_then_def)
  next
    case (reloaded w1)
    from after_reload [OF reloaded(1)] obtain w' where
      "render_frame env w1 = Exits 0 w'" "submissions w' = submissions w"
      by blast
    with reloaded show ?thesis
      by auto
  next
    case skipped
    with skipped_sub show ?thesis
      by auto
  qed
  have stop: "\<forall>c w' envs. main_iteration env w = Exits c w' \<longrightarrow>
            main_loop (env # envs) w = Exits c w'"
    by simp
  from poll main stop show ?thesis
    by blast
qed

lemma copy_demo:
  "copy_rows 2 2 8 8 [1, 2, 3, 4, 5, 6, 7, 8, 9, 10, 11, 12, 13, 14, 15, 16] 0 (replicate 16 0)
   = Some [1, 2, 3, 4, 5, 6, 7, 8, 9, 10, 11, 12, 13, 14, 15, 16]"
  by (simp add: copy_rows.simps memcpy_def)

lemma demo_reload: "reload frame1 demo = Returns demo_built"
  by (simp add: reload_def destroy_old_def load_new_def create_vm_def create_fm_def
      create_pipeline_def VK_CHECK_def and_then_def shader_at_def emit_def printf_def Let_def
      demo_def demo_built_def frame1_def VK_NULL_HANDLE_def pipeline_create_info_def)

lemma demo_render: "render_frame frame1 demo_built = Returns demo_drawn"
  using copy_demo
  by (simp add: render_frame_def check_keyboard_def draw_def submit_and_wait_def present_def
      count_frame_def frame_commands_def VK_CHECK_def and_then_def emit_def printf_def Let_def
      elapsed_since_def int32_def smod_int_alt_def
      demo_def demo_built_def demo_drawn_def frame1_def)

lemma demo_iteration: "main_iteration frame1 demo = Returns demo_drawn"
proof -
  have "demo\<lparr>kbd_queue := kbd_queue demo @ arrivals frame1\<rparr> = demo"
    by (simp add: demo_def frame1_def)
  moreover have "pipeline demo = VK_NULL_HANDLE"
    by (simp add: demo_def VK_NULL_HANDLE_def)
  ultimately show ?thesis
    by (simp add: main_iteration_def Let_def demo_reload demo_render and_then_def)
qed

lemma demo_next_render: "render_frame frame_next (demo_built\<lparr>kbd_queue := [press KEY_RIGHT]\<rparr>) = Returns demo_switched"
  using copy_demo
  by (simp add: render_frame_def check_keyboard_def draw_def submit_and_wait_def present_def
      count_frame_def frame_commands_def VK_CHECK_def and_then_def emit_def printf_def Let_def
      elapsed_since_def int32_def smod_int_alt_def press_def on_key_def key_right_def shader_at_def
      shader_count_def key_codes_distinct
      demo_def demo_built_def demo_drawn_def demo_switched_def frame1_def frame_next_def)

lemma demo_next_reload:
  "reload frame_next (demo\<lparr>kbd_queue := [press KEY_RIGHT]\<rparr>) =
     Returns (demo_built\<lparr>kbd_queue := [press KEY_RIGHT]\<rparr>)"
  by (simp add: reload_def destroy_old_def load_new_def create_vm_def create_fm_def
      create_pipeline_def VK_CHECK_def and_then_def shader_at_def emit_def printf_def Let_def
      demo_def demo_built_def frame1_def frame_next_def VK_NULL_HANDLE_def pipeline_create_info_def)

lemma demo_next: "main_iteration frame_next demo = Returns demo_switched"
proof -
  have "demo\<lparr>kbd_queue := kbd_queue demo @ arrivals frame_next\<rparr> = demo\<lparr>kbd_queue := [press KEY_RIGHT]\<rparr>"
    by (simp add: demo_def frame1_def frame_next_def)
  moreover have "pipeline demo = VK_NULL_HANDLE"
    by (simp add: demo_def VK_NULL_HANDLE_def)
  ultimately show ?thesis
    by (simp add: main_iteration_def Let_def demo_next_reload demo_next_render and_then_def)
qed

lemma demo_switched_reload: "reload frame1 demo_switched = Returns demo_reloaded"
  by (simp add: reload_def destroy_old_def load_new_def create_vm_def create_fm_def
      create_pipeline_def VK_CHECK_def and_then_def shader_at_def emit_def printf_def Let_def
      vkDestroyPipeline_def vkDestroyShaderModule_def
      demo_def demo_built_def demo_drawn_def demo_switched_def demo_reloaded_def frame1_def
      VK_NULL_HANDLE_def pipeline_create_info_def)

lemma copy_again:
  "copy_rows 2 2 8 8 [1, 2, 3, 4, 5, 6, 7, 8, 9, 10, 11, 12, 13, 14, 15, 16] 0
     [1, 2, 3, 4, 5, 6, 7, 8, 9, 10, 11, 12, 13, 14, 15, 16]
   = Some [1, 2, 3, 4, 5, 6, 7, 8, 9, 10, 11, 12, 13, 14, 15, 16]"
  by (simp add: copy_rows.simps memcpy_def)

lemma demo_reloaded_render: "render_frame frame1 demo_reloaded = Returns demo_rebuilt"
  using copy_again
  by (simp add: render_frame_def check_keyboard_def draw_def submit_and_wait_def present_def
      count_frame_def frame_commands_def VK_CHECK_def and_then_def emit_def printf_def Let_def
      elapsed_since_def int32_def smod_int_alt_def
      demo_def demo_built_def demo_drawn_def demo_switched_def demo_reloaded_def demo_rebuilt_def
      frame1_def)

lemma demo_rebuild: "main_iteration frame1 demo_switched = Returns demo_rebuilt"
proof -
  have "demo_switched\<lparr>kbd_queue := kbd_queue demo_switched @ arrivals frame1\<rparr> = demo_switched"
    by (simp add: demo_def demo_built_def demo_drawn_def demo_switched_def frame1_def)
  moreover have "reload_requested demo_switched \<noteq> 0"
    by (simp add: demo_switched_def)
  ultimately show ?thesis
    by (simp add: main_iteration_def Let_def demo_switched_reload demo_reloaded_render and_then_def)
qed

lemma demo_two_frames: "main_loop [frame_next, frame1] demo = Returns demo_rebuilt"
  by (simp add: demo_next demo_rebuild)

lemma demo_new_effects:
  "new_effects demo demo_rebuilt =
     [CreateShaderModule 5, CreateShaderModule 6,
      CreateGraphicsPipelines 7 (pipeline_create_info (demo\<lparr>vm := 5, fm := 6\<rparr>)),
      Print (MsgLoaded ''a''), Print (MsgNext ''b''),
      QueueSubmit [CmdBeginRenderPass 2 3 2 2, CmdBindPipeline 7,
                   CmdBindDescriptorSets 1 4, CmdDraw 6 1 0 0, CmdEndRenderPass],
      WaitForFences, DirtyFB,
      DestroyPipeline 7, DestroyShaderModule 5, DestroyShaderModule 6,
      CreateShaderModule 8, CreateShaderModule 9,
      CreateGraphicsPipelines 10 (pipeline_create_info (demo\<lparr>vm := 8, fm := 9\<rparr>)),
      Print (MsgLoaded ''b''),
      QueueSubmit [CmdBeginRenderPass 2 3 2 2, CmdBindPipeline 10,
                   CmdBindDescriptorSets 1 4, CmdDraw 6 1 0 0, CmdEndRenderPass],
      WaitForFences, DirtyFB]"
  by (simp add: new_effects_def demo_def demo_built_def demo_drawn_def demo_switched_def
      demo_reloaded_def demo_rebuilt_def)

theorem pipeline_shape_is_fixed_witness:
  "CreateGraphicsPipelines 7 (pipeline_create_info (demo\<lparr>vm := 5, fm := 6\<rparr>))
     \<in> set (new_effects demo (final (main_loop [frame_next, frame1] demo))) \<and>
   CreateGraphicsPipelines 10 (pipeline_create_info (demo\<lparr>vm := 8, fm := 9\<rparr>))
     \<in> set (new_effects demo (final (main_loop [frame_next, frame1] demo))) \<and>
   QueueSubmit [CmdBeginRenderPass 2 3 2 2, CmdBindPipeline 10,
                CmdBindDescriptorSets 1 4, CmdDraw 6 1 0 0, CmdEndRenderPass]
     \<in> set (new_effects demo (final (main_loop [frame_next, frame1] demo))) \<and>
   blank (pipeline_create_info (demo\<lparr>vm := 5, fm := 6\<rparr>)) =
     blank (pipeline_create_info (demo\<lparr>vm := 8, fm := 9\<rparr>)) \<and>
   topology (pipeline_create_info (demo\<lparr>vm := 8, fm := 9\<rparr>)) =
     VK_PRIMITIVE_TOPOLOGY_TRIANGLE_LIST \<and>
   vertexBindingDescriptionCount (pipeline_create_info (demo\<lparr>vm := 8, fm := 9\<rparr>)) = 0"
proof -
  let ?tr = "new_effects demo (final (main_loop [frame_next, frame1] demo))"
  have tr: "?tr = new_effects demo demo_rebuilt"
    by (simp only: demo_two_frames final.simps)
  have a: "CreateGraphicsPipelines 7 (pipeline_create_info (demo\<lparr>vm := 5, fm := 6\<rparr>)) \<in> set ?tr"
    unfolding tr demo_new_effects by simp
  have b: "CreateGraphicsPipelines 10 (pipeline_create_info (demo\<lparr>vm := 8, fm := 9\<rparr>)) \<in> set ?tr"
    unfolding tr demo_new_effects by simp
  have c: "QueueSubmit [CmdBeginRenderPass 2 3 2 2, CmdBindPipeline 10,
                CmdBindDescriptorSets 1 4, CmdDraw 6 1 0 0, CmdEndRenderPass] \<in> set ?tr"
    unfolding tr demo_new_effects by simp
  from pipeline_shape_is_fixed [of demo "[frame_next, frame1]"] a b c show ?thesis
    by auto
qed

theorem exit_before_submission_witness:
  "registry_ok demo_built \<and> 0 \<le> kbd_fd demo_built \<and>
   press KEY_Q \<in> set (kbd_queue demo_built @ arrivals frame_exit) \<and> exit_press (press KEY_Q) \<and>
   reload_requested demo_built = 0 \<and> pipeline demo_built \<noteq> VK_NULL_HANDLE \<and>
   (\<exists>w'. main_iteration frame_exit demo_built = Exits 0 w') \<and>
   submissions (final (main_iteration frame_exit demo_built)) = submissions demo_built \<and>
   submissions demo_built = []"
proof -
  have ok: "registry_ok demo_built"
    using demo_ok by (simp add: registry_ok_def shader_count_def demo_built_def)
  have fd: "0 \<le> kbd_fd demo_built"
    by (simp add: demo_built_def demo_def)
  have q: "press KEY_Q \<in> set (kbd_queue demo_built @ arrivals frame_exit)"
    by (simp add: frame_exit_def frame1_def)
  have x: "exit_press (press KEY_Q)"
    by (simp add: exit_press_def press_def)
  have ex: "\<exists>ev \<in> set (kbd_queue demo_built @ arrivals frame_exit). exit_press ev"
    using q x by blast
  have st: "reload_requested demo_built = 0" "pipeline demo_built \<noteq> VK_NULL_HANDLE"
    "submissions demo_built = []"
    by (simp_all add: demo_built_def demo_def VK_NULL_HANDLE_def submissions_def)
  from exit_before_submission [OF ok fd ex] show ?thesis
    using ok fd q x st by simp
qed

lemma handles_kept_refl: "handles_kept w w"
  by (simp add: handles_kept_def)

lemma handles_kept_trans: "handles_kept a b \<Longrightarrow> handles_kept b c \<Longrightarrow> handles_kept a c"
  by (simp add: handles_kept_def)

lemma vkDestroyPipeline_kept: "handles_kept w (final (vkDestroyPipeline h w))"
  by (simp add: vkDestroyPipeline_def handles_kept_def emit_def)

lemma vkDestroyShaderModule_kept: "handles_kept w (final (vkDestroyShaderModule h w))"
  by (simp add: vkDestroyShaderModule_def handles_kept_def emit_def)

lemma destroy_old_kept: "handles_kept w (final (destroy_old w))"
  unfolding destroy_old_def
  by (intro and_then_step [where R = handles_kept])
    (auto simp: handles_kept_refl vkDestroyPipeline_kept vkDestroyShaderModule_kept
      elim: handles_kept_trans)

lemma goes_on_simps [simp]:
  "goes_on (Returns w)" "\<not> goes_on (Continues w)" "goes_on (Exits c w)" "goes_on (Traps w)"
  by (simp_all add: goes_on_def)

lemma goes_on_and_then:
  assumes "goes_on m" "\<And>w1. goes_on (f w1)"
  shows "goes_on (and_then m f)"
  using assms by (cases m) (simp_all add: and_then_def)

lemma and_then_Continues:
  assumes "and_then m f = Continues w'" "goes_on m"
  shows "\<exists>w1. m = Returns w1 \<and> f w1 = Continues w'"
  using assms by (cases m) (simp_all add: and_then_def)

lemma destroy_old_goes_on: "goes_on (destroy_old w)"
  unfolding destroy_old_def
  by (intro goes_on_and_then) (simp_all add: vkDestroyPipeline_def vkDestroyShaderModule_def)

lemma VK_CHECK_goes_on: "goes_on (VK_CHECK r w)"
  by (simp add: VK_CHECK_def)

lemma create_goes_on:
  "goes_on (create_vm r code w)" "goes_on (create_fm r code w)" "goes_on (create_pipeline r w)"
  unfolding create_vm_def create_fm_def create_pipeline_def
  by (intro goes_on_and_then VK_CHECK_goes_on, simp add: Let_def)+

lemma load_new_Continues:
  assumes "load_new env w = Continues w'"
  shows "\<exists>s. shader_at w (current_shader w) = Some s \<and>
             (load_spv env (vert_path s) = None \<or> load_spv env (frag_path s) = None) \<and>
             w' = emit (Sleep 1) (printf (MsgFailedToLoad (name s)) w)"
proof (cases "shader_at w (current_shader w)")
  case None
  with assms show ?thesis
    by (simp add: load_new_def)
next
  case (Some s)
  show ?thesis
  proof (cases "load_spv env (vert_path s)")
    case None
    with Some assms show ?thesis
      by (simp add: load_new_def)
  next
    case vc: (Some vc)
    show ?thesis
    proof (cases "load_spv env (frag_path s)")
      case None
      with Some vc assms show ?thesis
        by (simp add: load_new_def)
    next
      case fc: (Some fc)
      have "goes_on (and_then (create_vm (vk_vert_module env) vc w) (\<lambda>w.
               and_then (create_fm (vk_frag_module env) fc w) (\<lambda>w.
               and_then (create_pipeline (vk_pipeline env) w) (\<lambda>w.
                 Returns ((printf (MsgLoaded (name s)) w)
                   \<lparr>reload_requested := 0, start := clock_loaded env, frames := 0,
                    built_for := current_shader w\<rparr>)))))"
        by (intro goes_on_and_then create_goes_on) simp
      with Some vc fc assms show ?thesis
        by (simp add: load_new_def goes_on_def)
    qed
  qed
qed

lemma load_new_Returns:
  assumes "load_new env w = Returns w'"
  shows "reload_requested w' = 0 \<and> built_for w' = current_shader w' \<and>
         start w' = clock_loaded env \<and> frames w' = 0"
proof (cases "shader_at w (current_shader w)")
  case None
  with assms show ?thesis
    by (simp add: load_new_def)
next
  case (Some s)
  show ?thesis
  proof (cases "load_spv env (vert_path s)")
    case None
    with Some assms show ?thesis
      by (simp add: load_new_def)
  next
    case vc: (Some vc)
    show ?thesis
    proof (cases "load_spv env (frag_path s)")
      case None
      with Some vc assms show ?thesis
        by (simp add: load_new_def)
    next
      case fc: (Some fc)
      with Some vc assms obtain w3 where
        "w' = (printf (MsgLoaded (name s)) w3)
                   \<lparr>reload_requested := 0, start := clock_loaded env, frames := 0,
                    built_for := current_shader w3\<rparr>"
        by (auto simp: load_new_def and_then_Returns)
      then show ?thesis
        by (simp add: printf_def emit_def)
    qed
  qed
qed

lemma reload_Returns:
  assumes "reload env w = Returns w'"
  shows "reload_requested w' = 0 \<and> built_for w' = current_shader w' \<and>
         start w' = clock_loaded env \<and> frames w' = 0"
  using assms by (auto simp: reload_def and_then_Returns dest: load_new_Returns)

lemma reload_Continues:
  assumes "reload env w = Continues w'"
  shows "handles_kept w w'"
proof -
  from assms obtain w1 where d: "destroy_old w = Returns w1" and l: "load_new env w1 = Continues w'"
    unfolding reload_def using and_then_Continues [OF _ destroy_old_goes_on] by blast
  from destroy_old_kept [of w] d have "handles_kept w w1"
    by simp
  moreover from load_new_Continues [OF l] have "handles_kept w1 w'"
    by (auto simp: handles_kept_def emit_def printf_def)
  ultimately show ?thesis
    by (rule handles_kept_trans)
qed

lemma kbd_step_sync: "in_sync w \<Longrightarrow> kbd_step w w' \<Longrightarrow> in_sync w'"
  by (auto simp: in_sync_def kbd_step_def kbd_frame_def)

lemma draw_step_sync: "in_sync w \<Longrightarrow> draw_step w w' \<Longrightarrow> in_sync w'"
  by (auto simp: in_sync_def draw_step_def draw_frame_def)

lemma render_frame_sync:
  assumes "in_sync w"
  shows "in_sync (final (render_frame env w))"
proof -
  let ?t = "elapsed_since (start w) (clock_now env)"
  let ?k = "check_keyboard (kbd_fd w) w"
  have k: "in_sync (final ?k)"
    using assms check_keyboard_step by (rule kbd_step_sync)
  show ?thesis
  proof (cases ?k)
    case (Returns w2)
    with k have "in_sync w2" by simp
    then have "in_sync (final (draw env ?t w2))"
      using draw_draw_step by (rule draw_step_sync)
    with Returns show ?thesis
      by (simp add: render_frame_def Let_def and_then_def)
  qed (use k in \<open>simp_all add: render_frame_def Let_def and_then_def\<close>)
qed

lemma main_iteration_sync:
  assumes "in_sync w" "main_iteration env w = Returns w' \<or> main_iteration env w = Continues w'"
  shows "in_sync w'"
proof -
  let ?w0 = "w\<lparr>kbd_queue := kbd_queue w @ arrivals env\<rparr>"
  have s0: "in_sync ?w0"
    using assms(1) by (simp add: in_sync_def)
  from main_iteration_cases [of w env] consider
      (direct) "main_iteration env w = render_frame env ?w0"
    | (reloaded) w1 where "reload env ?w0 = Returns w1"
        "main_iteration env w = render_frame env w1"
    | (skipped) "reload_requested w \<noteq> 0 \<or> pipeline w = VK_NULL_HANDLE"
        "main_iteration env w = reload env ?w0" "\<forall>w1. reload env ?w0 \<noteq> Returns w1"
    by blast
  then show ?thesis
  proof cases
    case direct
    with render_frame_sync [OF s0, of env] assms(2) show ?thesis
      by auto
  next
    case (reloaded w1)
    from reload_Returns [OF reloaded(1)] have "in_sync w1"
      by (simp add: in_sync_def)
    from render_frame_sync [OF this, of env] reloaded(2) assms(2) show ?thesis
      by auto
  next
    case skipped
    with assms(2) have c: "reload env ?w0 = Continues w'"
      by auto
    from reload_Continues [OF c] skipped(1) show ?thesis
      by (auto simp: in_sync_def handles_kept_def)
  qed
qed

lemma main_loop_sync:
  assumes "in_sync w" "main_loop envs w = Returns w'"
  shows "in_sync w'"
  using assms
proof (induction envs arbitrary: w)
  case Nil
  then show ?case by simp
next
  case (Cons env envs)
  show ?case
  proof (cases "main_iteration env w")
    case (Returns w1)
    with Cons.prems(1) have "in_sync w1"
      using main_iteration_sync by blast
    with Cons.IH [of w1] Cons.prems(2) Returns show ?thesis
      by simp
  next
    case (Continues w1)
    with Cons.prems(1) have "in_sync w1"
      using main_iteration_sync by blast
    with Cons.IH [of w1] Cons.prems(2) Continues show ?thesis
      by simp
  next
    case (Exits c w1)
    with Cons.prems(2) show ?thesis by simp
  next
    case (Traps w1)
    with Cons.prems(2) show ?thesis by simp
  qed
qed

lemma on_key_no_arrow:
  assumes "c \<noteq> KEY_LEFT" "c \<noteq> KEY_RIGHT"
  shows "current_shader (final (on_key c w)) = current_shader w"
  using assms
  by (simp add: on_key_def key_f_def key_exit_def find_display_port_def printf_def emit_def Let_def
      split: option.splits)

lemma read_events_no_arrows:
  assumes "\<forall>ev \<in> set q. \<not> arrow_press ev"
  shows "current_shader (final (read_events q w)) = current_shader w"
  using assms
proof (induction q arbitrary: w)
  case Nil
  show ?case by simp
next
  case (Cons ev q)
  let ?w1 = "w\<lparr>kbd_queue := q\<rparr>"
  from Cons.prems have rest: "\<forall>ev \<in> set q. \<not> arrow_press ev" and this_one: "\<not> arrow_press ev"
    by simp_all
  show ?case
  proof (cases "ev_type ev \<noteq> EV_KEY \<or> ev_value ev \<noteq> 1")
    case True
    then have "read_events (ev # q) w = read_events q ?w1"
      by simp
    with Cons.IH [OF rest, of ?w1] show ?thesis
      by simp
  next
    case False
    with this_one have c: "ev_code ev \<noteq> KEY_LEFT" "ev_code ev \<noteq> KEY_RIGHT"
      by (auto simp: arrow_press_def)
    have same: "current_shader (final (on_key (ev_code ev) ?w1)) = current_shader w"
      using on_key_no_arrow [OF c, of ?w1] by simp
    show ?thesis
    proof (cases "on_key (ev_code ev) ?w1")
      case (Returns w2)
      with False have "read_events (ev # q) w = read_events q w2"
        by simp
      with Cons.IH [OF rest, of w2] same Returns show ?thesis
        by simp
    qed (use False same in simp_all)
  qed
qed

lemma render_frame_no_arrows:
  assumes "\<forall>ev \<in> set (kbd_queue w). \<not> arrow_press ev"
  shows "current_shader (final (render_frame env w)) = current_shader w"
proof -
  let ?t = "elapsed_since (start w) (clock_now env)"
  let ?k = "check_keyboard (kbd_fd w) w"
  have k: "current_shader (final ?k) = current_shader w"
    using read_events_no_arrows [OF assms, of w] by (simp add: check_keyboard_def)
  show ?thesis
  proof (cases ?k)
    case (Returns w2)
    have "draw_step w2 (final (draw env ?t w2))"
      by (rule draw_draw_step)
    then have "current_shader (final (draw env ?t w2)) = current_shader w2"
      by (simp add: draw_step_def draw_frame_def)
    with Returns k show ?thesis
      by (simp add: render_frame_def Let_def and_then_def)
  qed (use k in \<open>simp_all add: render_frame_def Let_def and_then_def\<close>)
qed

lemma main_iteration_no_arrows:
  assumes "\<forall>ev \<in> set (kbd_queue w @ arrivals env). \<not> arrow_press ev"
  shows "current_shader (final (main_iteration env w)) = current_shader w"
proof -
  let ?w0 = "w\<lparr>kbd_queue := kbd_queue w @ arrivals env\<rparr>"
  have q0: "\<forall>ev \<in> set (kbd_queue ?w0). \<not> arrow_press ev"
    using assms by simp
  have rl: "reload_frame ?w0 (final (reload env ?w0))"
    using reload_step [of ?w0 env] by (simp add: reload_step_def)
  from main_iteration_cases [of w env] consider
      (direct) "main_iteration env w = render_frame env ?w0"
    | (reloaded) w1 where "reload env ?w0 = Returns w1"
        "main_iteration env w = render_frame env w1"
    | (skipped) "main_iteration env w = reload env ?w0"
    by blast
  then show ?thesis
  proof cases
    case direct
    with render_frame_no_arrows [OF q0, of env] show ?thesis
      by simp
  next
    case (reloaded w1)
    with rl have f: "reload_frame ?w0 w1"
      by simp
    then have "\<forall>ev \<in> set (kbd_queue w1). \<not> arrow_press ev"
      using q0 by (simp add: reload_frame_def)
    from render_frame_no_arrows [OF this, of env] f reloaded(2) show ?thesis
      by (simp add: reload_frame_def)
  next
    case skipped
    with rl show ?thesis
      by (simp add: reload_frame_def)
  qed
qed

lemma new_effects_append:
  assumes "extends P a b" "extends Q b c"
  shows "new_effects a c = new_effects a b @ new_effects b c"
  using assms by (auto simp: extends_def new_effects_def)

lemma no_submit_new:
  assumes "extends no_submit w w'"
  shows "QueueSubmit cmds \<notin> set (new_effects w w')"
  using extends_new_effects [OF assms] by (auto simp: list_all_iff no_submit_def)

lemma io_no_submit_effect: "is_io e \<Longrightarrow> no_submit e"
  by (cases e) (simp_all add: no_submit_def)

lemma kbd_step_no_submit: "kbd_step w w' \<Longrightarrow> extends no_submit w w'"
  by (auto simp: kbd_step_def extends_def list_all_iff io_no_submit_effect)

lemma draw_submits:
  assumes "draw_step w w'" "QueueSubmit cmds \<in> set (new_effects w w')"
  shows "cmds = frame_commands w'"
proof -
  from assms(1) have "list_all (draw_effect w) (new_effects w w')"
    by (simp add: draw_step_def extends_new_effects)
  with assms(2) have "draw_effect w (QueueSubmit cmds)"
    by (simp add: list_all_iff)
  then have "cmds = frame_commands w"
    by (simp add: draw_effect_def)
  moreover have "frame_commands w' = frame_commands w"
    using assms(1) by (simp add: draw_step_def draw_frame_def frame_commands_def)
  ultimately show ?thesis by simp
qed

lemma render_frame_submits:
  assumes "QueueSubmit cmds \<in> set (new_effects w (final (render_frame env w)))"
  shows "cmds = frame_commands (final (render_frame env w)) \<and>
         built_for (final (render_frame env w)) = built_for w"
proof -
  let ?t = "elapsed_since (start w) (clock_now env)"
  let ?k = "check_keyboard (kbd_fd w) w"
  have ks: "kbd_step w (final ?k)"
    by (rule check_keyboard_step)
  show ?thesis
  proof (cases ?k)
    case (Returns w2)
    let ?d = "final (draw env ?t w2)"
    have r: "final (render_frame env w) = ?d"
      using Returns by (simp add: render_frame_def Let_def and_then_def)
    have k2: "kbd_step w w2"
      using ks Returns by simp
    have d: "draw_step w2 ?d"
      by (rule draw_draw_step)
    have "new_effects w ?d = new_effects w w2 @ new_effects w2 ?d"
      using kbd_step_no_submit [OF k2] d
      by (auto simp: draw_step_def intro: new_effects_append)
    with assms r no_submit_new [OF kbd_step_no_submit [OF k2]]
    have "QueueSubmit cmds \<in> set (new_effects w2 ?d)"
      by auto
    with d have "cmds = frame_commands ?d"
      by (rule draw_submits)
    moreover have "built_for ?d = built_for w"
      using d k2 by (simp add: draw_step_def draw_frame_def kbd_step_def kbd_frame_def)
    ultimately show ?thesis
      using r by simp
  next
    case (Continues w2)
    then have "final (render_frame env w) = final ?k"
      by (simp add: render_frame_def Let_def and_then_def)
    with assms no_submit_new [OF kbd_step_no_submit [OF ks]] show ?thesis
      by simp
  next
    case (Exits c w2)
    then have "final (render_frame env w) = final ?k"
      by (simp add: render_frame_def Let_def and_then_def)
    with assms no_submit_new [OF kbd_step_no_submit [OF ks]] show ?thesis
      by simp
  next
    case (Traps w2)
    then have "final (render_frame env w) = final ?k"
      by (simp add: render_frame_def Let_def and_then_def)
    with assms no_submit_new [OF kbd_step_no_submit [OF ks]] show ?thesis
      by simp
  qed
qed

lemma main_iteration_submits:
  assumes "in_sync w"
    and "QueueSubmit cmds \<in> set (new_effects w (final (main_iteration env w)))"
  shows "cmds = frame_commands (final (main_iteration env w)) \<and>
         built_for (final (main_iteration env w)) = current_shader w"
proof -
  let ?w0 = "w\<lparr>kbd_queue := kbd_queue w @ arrivals env\<rparr>"
  let ?F = "final (main_iteration env w)"
  have ne0: "new_effects w x = new_effects ?w0 x" for x
    by (simp add: new_effects_def)
  have rs: "extends no_submit ?w0 (final (reload env ?w0))"
    by (rule reload_no_submit)
  from main_iteration_cases [of w env] consider
      (direct) "reload_requested w = 0" "pipeline w \<noteq> VK_NULL_HANDLE"
        "main_iteration env w = render_frame env ?w0"
    | (reloaded) w1 where "reload env ?w0 = Returns w1"
        "main_iteration env w = render_frame env w1"
    | (skipped) "main_iteration env w = reload env ?w0"
    by blast
  then show ?thesis
  proof cases
    case direct
    from assms(1) direct(1,2) have b: "built_for ?w0 = current_shader w"
      by (simp add: in_sync_def)
    from assms(2) direct(3) have "QueueSubmit cmds \<in> set (new_effects ?w0 (final (render_frame env ?w0)))"
      by (simp add: ne0)
    from render_frame_submits [OF this] direct(3) b show ?thesis
      by simp
  next
    case (reloaded w1)
    have f: "reload_frame ?w0 w1"
      using reload_step [of ?w0 env] reloaded(1) by (simp add: reload_step_def)
    have b: "built_for w1 = current_shader w"
      using reload_Returns [OF reloaded(1)] f by (simp add: reload_frame_def)
    have e1: "extends no_submit ?w0 w1"
      using rs reloaded(1) by simp
    have "iter_step w1 (final (render_frame env w1))"
      by (rule render_frame_iter)
    then have "new_effects ?w0 (final (render_frame env w1)) =
        new_effects ?w0 w1 @ new_effects w1 (final (render_frame env w1))"
      using e1 by (auto simp: iter_step_def intro: new_effects_append)
    with assms(2) reloaded(2) no_submit_new [OF e1]
    have "QueueSubmit cmds \<in> set (new_effects w1 (final (render_frame env w1)))"
      by (auto simp: ne0)
    from render_frame_submits [OF this] reloaded(2) b show ?thesis
      by simp
  next
    case skipped
    with assms(2) no_submit_new [OF rs] show ?thesis
      by (simp add: ne0)
  qed
qed

text \<open>
  Claim C10. \<open>built_for\<close> records the index for which the current pipeline was built.
  (1) A call of \<open>check_keyboard\<close> that leaves the index changed leaves \<open>reload_requested\<close>
  set. (2) An iteration in which no press of the left or right arrow is queued leaves the
  index as it was, so nothing but the two handlers changes it. (3) If, at the top of an
  iteration, a cleared flag with a pipeline present means that the pipeline was built for
  the current index, the same holds at the top of the next iteration, and (5) after any
  number of iterations. (4) Every command buffer submitted in such an iteration is the
  one that binds the pipeline of the state, and that pipeline was built for the index the
  iteration started with: an index changed by a key press is drawn only after the
  rebuild at the top of a later iteration.
\<close>

theorem index_change_forces_rebuild:
  "(current_shader (final (check_keyboard fd w)) \<noteq> current_shader w \<longrightarrow>
      reload_requested (final (check_keyboard fd w)) = 1) \<and>
   ((\<forall>ev \<in> set (kbd_queue w @ arrivals env). \<not> arrow_press ev) \<longrightarrow>
      current_shader (final (main_iteration env w)) = current_shader w) \<and>
   (in_sync w \<longrightarrow>
      (\<forall>w'. main_iteration env w = Returns w' \<or> main_iteration env w = Continues w' \<longrightarrow>
         in_sync w')) \<and>
   (in_sync w \<longrightarrow>
      (\<forall>cmds. QueueSubmit cmds \<in> set (new_effects w (final (main_iteration env w))) \<longrightarrow>
         cmds = frame_commands (final (main_iteration env w)) \<and>
         CmdBindPipeline (pipeline (final (main_iteration env w))) \<in> set cmds \<and>
         built_for (final (main_iteration env w)) = current_shader w)) \<and>
   (in_sync w \<longrightarrow> (\<forall>w'. main_loop envs w = Returns w' \<longrightarrow> in_sync w'))"
proof -
  have one: "current_shader (final (check_keyboard fd w)) \<noteq> current_shader w \<longrightarrow>
      reload_requested (final (check_keyboard fd w)) = 1"
    using check_keyboard_step [of w fd] by (auto simp: kbd_step_def)
  have two: "(\<forall>ev \<in> set (kbd_queue w @ arrivals env). \<not> arrow_press ev) \<longrightarrow>
      current_shader (final (main_iteration env w)) = current_shader w"
    using main_iteration_no_arrows by blast
  have three: "in_sync w \<longrightarrow>
      (\<forall>w'. main_iteration env w = Returns w' \<or> main_iteration env w = Continues w' \<longrightarrow>
         in_sync w')"
    using main_iteration_sync by blast
  have four: "in_sync w \<longrightarrow>
      (\<forall>cmds. QueueSubmit cmds \<in> set (new_effects w (final (main_iteration env w))) \<longrightarrow>
         cmds = frame_commands (final (main_iteration env w)) \<and>
         CmdBindPipeline (pipeline (final (main_iteration env w))) \<in> set cmds \<and>
         built_for (final (main_iteration env w)) = current_shader w)"
  proof (intro impI allI)
    fix cmds
    assume "in_sync w"
      and "QueueSubmit cmds \<in> set (new_effects w (final (main_iteration env w)))"
    then have c: "cmds = frame_commands (final (main_iteration env w)) \<and>
         built_for (final (main_iteration env w)) = current_shader w"
      by (rule main_iteration_submits)
    then have "CmdBindPipeline (pipeline (final (main_iteration env w))) \<in> set cmds"
      by (simp add: frame_commands_def)
    with c show "cmds = frame_commands (final (main_iteration env w)) \<and>
         CmdBindPipeline (pipeline (final (main_iteration env w))) \<in> set cmds \<and>
         built_for (final (main_iteration env w)) = current_shader w"
      by simp
  qed
  have five: "in_sync w \<longrightarrow> (\<forall>w'. main_loop envs w = Returns w' \<longrightarrow> in_sync w')"
    using main_loop_sync by blast
  from one two three four five show ?thesis
    by blast
qed

theorem index_change_forces_rebuild_witness:
  "current_shader (final (check_keyboard 3 (demo\<lparr>kbd_queue := [press KEY_RIGHT]\<rparr>))) = 1 \<and>
   current_shader (demo\<lparr>kbd_queue := [press KEY_RIGHT]\<rparr>) = 0 \<and>
   reload_requested (final (check_keyboard 3 (demo\<lparr>kbd_queue := [press KEY_RIGHT]\<rparr>))) = 1 \<and>
   kbd_queue demo @ arrivals frame1 = [] \<and>
   current_shader (final (main_iteration frame1 demo)) = current_shader demo \<and>
   in_sync demo \<and> main_iteration frame_next demo = Returns demo_switched \<and> in_sync demo_switched \<and>
   current_shader demo_switched = 1 \<and> built_for demo_switched = 0 \<and>
   reload_requested demo_switched = 1 \<and>
   QueueSubmit [CmdBeginRenderPass 2 3 2 2, CmdBindPipeline 10,
                CmdBindDescriptorSets 1 4, CmdDraw 6 1 0 0, CmdEndRenderPass]
     \<in> set (new_effects demo_switched (final (main_iteration frame1 demo_switched))) \<and>
   pipeline (final (main_iteration frame1 demo_switched)) = 10 \<and>
   built_for (final (main_iteration frame1 demo_switched)) = current_shader demo_switched \<and>
   main_loop [frame_next, frame1] demo = Returns demo_rebuilt \<and> in_sync demo_rebuilt"
proof -
  let ?wq = "demo\<lparr>kbd_queue := [press KEY_RIGHT]\<rparr>"
  have k: "current_shader (final (check_keyboard 3 ?wq)) = 1" "current_shader ?wq = 0"
    by (simp_all add: check_keyboard_def press_def on_key_def key_right_def shader_at_def
        shader_count_def key_codes_distinct int32_def smod_int_alt_def printf_def emit_def
        Let_def demo_def)
  have q: "kbd_queue demo @ arrivals frame1 = []"
    by (simp add: demo_def frame1_def)
  have s: "in_sync demo"
    by (simp add: in_sync_def demo_def VK_NULL_HANDLE_def)
  have sw: "current_shader demo_switched = 1" "built_for demo_switched = 0"
    "reload_requested demo_switched = 1"
    by (simp_all add: demo_switched_def demo_drawn_def demo_built_def demo_def)
  have sub: "QueueSubmit [CmdBeginRenderPass 2 3 2 2, CmdBindPipeline 10,
                CmdBindDescriptorSets 1 4, CmdDraw 6 1 0 0, CmdEndRenderPass]
     \<in> set (new_effects demo_switched (final (main_iteration frame1 demo_switched)))"
    by (simp add: demo_rebuild new_effects_def demo_rebuilt_def demo_reloaded_def)
  have p: "pipeline (final (main_iteration frame1 demo_switched)) = 10"
    by (simp add: demo_rebuild demo_rebuilt_def demo_reloaded_def)
  note a = index_change_forces_rebuild [of 3 ?wq frame1 "[]"]
    and b = index_change_forces_rebuild [of 3 demo frame1 "[]"]
    and c = index_change_forces_rebuild [of 3 demo frame_next "[frame_next, frame1]"]
    and d = index_change_forces_rebuild [of 3 demo_switched frame1 "[]"]
  have one: "reload_requested (final (check_keyboard 3 ?wq)) = 1"
    using a k by simp
  have two: "current_shader (final (main_iteration frame1 demo)) = current_shader demo"
    using b q by simp
  have three: "in_sync demo_switched"
    using c s demo_next by simp
  have four: "built_for (final (main_iteration frame1 demo_switched)) = current_shader demo_switched"
    using d three sub by blast
  have five: "in_sync demo_rebuilt"
    using c s demo_two_frames by simp
  from k one q two s demo_next three sw sub p four demo_two_frames five show ?thesis
    by simp
qed

lemma destroy_old_live:
  assumes "pipeline w = VK_NULL_HANDLE \<or> pipeline w \<in> dom (dev_pipelines w)"
    and "vm w = VK_NULL_HANDLE \<or> vm w \<in> dom (dev_modules w)"
    and "fm w = VK_NULL_HANDLE \<or> fm w \<in> dom (dev_modules w)"
    and "fm w = VK_NULL_HANDLE \<or> fm w \<noteq> vm w"
  shows "\<exists>w1. destroy_old w = Returns w1 \<and>
           dev_pipelines w1 = drop_handle (pipeline w) (dev_pipelines w) \<and>
           dev_modules w1 = drop_handle (fm w) (drop_handle (vm w) (dev_modules w)) \<and>
           trace w1 = trace w @ teardown w"
proof -
  let ?p = "if pipeline w \<noteq> VK_NULL_HANDLE then vkDestroyPipeline (pipeline w) w else Returns w"
  have "\<exists>w1. ?p = Returns w1 \<and>
      dev_pipelines w1 = drop_handle (pipeline w) (dev_pipelines w) \<and>
      trace w1 = trace w @ (if pipeline w = VK_NULL_HANDLE then [] else [DestroyPipeline (pipeline w)]) \<and>
      vm w1 = vm w \<and> fm w1 = fm w \<and> dev_modules w1 = dev_modules w"
  proof (cases "pipeline w = VK_NULL_HANDLE")
    case True
    then show ?thesis by (simp add: drop_handle_def)
  next
    case False
    with assms(1) show ?thesis
      by (simp add: vkDestroyPipeline_def drop_handle_def emit_def)
  qed
  then obtain w1 where w1: "?p = Returns w1"
    and p1: "dev_pipelines w1 = drop_handle (pipeline w) (dev_pipelines w)"
    and t1: "trace w1 = trace w @ (if pipeline w = VK_NULL_HANDLE then [] else [DestroyPipeline (pipeline w)])"
    and k1: "vm w1 = vm w" "fm w1 = fm w" "dev_modules w1 = dev_modules w"
    by blast
  let ?v = "if vm w1 \<noteq> VK_NULL_HANDLE then vkDestroyShaderModule (vm w1) w1 else Returns w1"
  have "\<exists>w2. ?v = Returns w2 \<and>
      dev_modules w2 = drop_handle (vm w) (dev_modules w) \<and>
      trace w2 = trace w1 @ (if vm w = VK_NULL_HANDLE then [] else [DestroyShaderModule (vm w)]) \<and>
      fm w2 = fm w \<and> dev_pipelines w2 = dev_pipelines w1"
  proof (cases "vm w = VK_NULL_HANDLE")
    case True
    with k1 show ?thesis by (simp add: drop_handle_def)
  next
    case False
    with assms(2) k1 show ?thesis
      by (simp add: vkDestroyShaderModule_def drop_handle_def emit_def)
  qed
  then obtain w2 where w2: "?v = Returns w2"
    and m2: "dev_modules w2 = drop_handle (vm w) (dev_modules w)"
    and t2: "trace w2 = trace w1 @ (if vm w = VK_NULL_HANDLE then [] else [DestroyShaderModule (vm w)])"
    and k2: "fm w2 = fm w" "dev_pipelines w2 = dev_pipelines w1"
    by blast
  let ?f = "if fm w2 \<noteq> VK_NULL_HANDLE then vkDestroyShaderModule (fm w2) w2 else Returns w2"
  have live: "fm w = VK_NULL_HANDLE \<or> fm w \<in> dom (dev_modules w2)"
    using assms(3,4) m2 by (auto simp: drop_handle_def)
  have "\<exists>w3. ?f = Returns w3 \<and>
      dev_modules w3 = drop_handle (fm w) (dev_modules w2) \<and>
      trace w3 = trace w2 @ (if fm w = VK_NULL_HANDLE then [] else [DestroyShaderModule (fm w)]) \<and>
      dev_pipelines w3 = dev_pipelines w2"
  proof (cases "fm w = VK_NULL_HANDLE")
    case True
    with k2 show ?thesis by (simp add: drop_handle_def)
  next
    case False
    with live k2 show ?thesis
      by (simp add: vkDestroyShaderModule_def drop_handle_def emit_def)
  qed
  then obtain w3 where w3: "?f = Returns w3"
    and m3: "dev_modules w3 = drop_handle (fm w) (dev_modules w2)"
    and t3: "trace w3 = trace w2 @ (if fm w = VK_NULL_HANDLE then [] else [DestroyShaderModule (fm w)])"
    and k3: "dev_pipelines w3 = dev_pipelines w2"
    by blast
  have "destroy_old w = Returns w3"
    using w1 w2 w3 by (simp add: destroy_old_def and_then_def)
  moreover have "trace w3 = trace w @ teardown w"
    using t1 t2 t3 by (simp add: teardown_def)
  ultimately show ?thesis
    using p1 m2 m3 k2 k3 by simp
qed

lemma load_new_fails:
  assumes "shader_at w (current_shader w) = Some s"
    and "load_spv env (vert_path s) = None \<or> load_spv env (frag_path s) = None"
  shows "load_new env w = Continues (emit (Sleep 1) (printf (MsgFailedToLoad (name s)) w))"
  using assms by (auto simp: load_new_def split: option.splits)

text \<open>
  Claim C1, as the code has it. The statement is about a rebuild request made while the
  active index names a registry entry and each of the three handles is
  \<open>VK_NULL_HANDLE\<close> or names a live object, the two shader module handles naming
  different objects: a rebuild is due (the flag is set or there is no pipeline) and at
  least one of the two binaries of the selected program cannot be read. Then the iteration is cut short by \<open>continue\<close>. The objects of the previous
  set, if there was one, have been destroyed, before the files were read, and no object
  has been created. Index, flag, epoch, frame counter, registry, scanout buffer and
  uniform block are as before, the pending input is still queued, and the output is the
  teardown, the failure message and a sleep of one second. Nothing is said about a
  further attempt made after the failure, when the handles no longer name live objects.
\<close>

theorem failed_load_after_teardown:
  assumes "shader_at w (current_shader w) = Some s"
    and "load_spv env (vert_path s) = None \<or> load_spv env (frag_path s) = None"
    and "reload_requested w \<noteq> 0 \<or> pipeline w = VK_NULL_HANDLE"
    and "pipeline w = VK_NULL_HANDLE \<or> pipeline w \<in> dom (dev_pipelines w)"
    and "vm w = VK_NULL_HANDLE \<or> vm w \<in> dom (dev_modules w)"
    and "fm w = VK_NULL_HANDLE \<or> fm w \<in> dom (dev_modules w)"
    and "fm w = VK_NULL_HANDLE \<or> fm w \<noteq> vm w"
  shows "\<exists>w'. main_iteration env w = Continues w' \<and>
           dev_pipelines w' = drop_handle (pipeline w) (dev_pipelines w) \<and>
           dev_modules w' = drop_handle (fm w) (drop_handle (vm w) (dev_modules w)) \<and>
           next_handle w' = next_handle w \<and>
           trace w' = trace w @ teardown w @ [Print (MsgFailedToLoad (name s)), Sleep 1] \<and>
           current_shader w' = current_shader w \<and> reload_requested w' = reload_requested w \<and>
           start w' = start w \<and> frames w' = frames w \<and> shaders w' = shaders w \<and>
           scanout w' = scanout w \<and> ubo_mem w' = ubo_mem w \<and>
           kbd_queue w' = kbd_queue w @ arrivals env"
proof -
  let ?w0 = "w\<lparr>kbd_queue := kbd_queue w @ arrivals env\<rparr>"
  have live0: "pipeline ?w0 = VK_NULL_HANDLE \<or> pipeline ?w0 \<in> dom (dev_pipelines ?w0)"
    "vm ?w0 = VK_NULL_HANDLE \<or> vm ?w0 \<in> dom (dev_modules ?w0)"
    "fm ?w0 = VK_NULL_HANDLE \<or> fm ?w0 \<in> dom (dev_modules ?w0)"
    "fm ?w0 = VK_NULL_HANDLE \<or> fm ?w0 \<noteq> vm ?w0"
    using assms(4-7) by simp_all
  from destroy_old_live [OF live0] obtain w1 where
    d: "destroy_old ?w0 = Returns w1"
    and p1: "dev_pipelines w1 = drop_handle (pipeline w) (dev_pipelines w)"
    and m1: "dev_modules w1 = drop_handle (fm w) (drop_handle (vm w) (dev_modules w))"
    and t1: "trace w1 = trace w @ teardown w"
    by (auto simp: teardown_def)
  have f1: "reload_frame ?w0 w1"
    using destroy_old_step [of ?w0] d by (simp add: reload_step_def)
  have h1: "handles_kept ?w0 w1"
    using destroy_old_kept [of ?w0] d by simp
  have s1: "shader_at w1 (current_shader w1) = Some s"
    using assms(1) f1 by (simp add: shader_at_def reload_frame_def split: if_splits)
  let ?w' = "emit (Sleep 1) (printf (MsgFailedToLoad (name s)) w1)"
  have "reload env ?w0 = Continues ?w'"
    using d load_new_fails [OF s1 assms(2)] by (simp add: reload_def and_then_def)
  with assms(3) have run: "main_iteration env w = Continues ?w'"
    by (auto simp: main_iteration_def Let_def and_then_def)
  have "dev_pipelines ?w' = drop_handle (pipeline w) (dev_pipelines w)"
    using p1 by (simp add: emit_def printf_def)
  moreover have "dev_modules ?w' = drop_handle (fm w) (drop_handle (vm w) (dev_modules w))"
    using m1 by (simp add: emit_def printf_def)
  moreover have "next_handle ?w' = next_handle w" "reload_requested ?w' = reload_requested w"
    "start ?w' = start w" "frames ?w' = frames w" "pipeline ?w' = pipeline w"
    using h1 by (simp_all add: handles_kept_def emit_def printf_def)
  moreover have "trace ?w' = trace w @ teardown w @ [Print (MsgFailedToLoad (name s)), Sleep 1]"
    using t1 by (simp add: emit_def printf_def)
  moreover have "current_shader ?w' = current_shader w" "shaders ?w' = shaders w"
    "scanout ?w' = scanout w" "ubo_mem ?w' = ubo_mem w"
    "kbd_queue ?w' = kbd_queue w @ arrivals env"
    using f1 by (simp_all add: reload_frame_def emit_def printf_def)
  ultimately show ?thesis
    using run by simp
qed

lemma demo_switched_fields:
  "shader_at demo_switched (current_shader demo_switched) =
     Some \<lparr>name = ''b'', vert_path = ''./b.vert.spv'', frag_path = ''./b.frag.spv''\<rparr>"
  "reload_requested demo_switched = 1" "pipeline demo_switched = 7"
  "vm demo_switched = 5" "fm demo_switched = 6"
  "dev_pipelines demo_switched 7 = Some (pipeline_create_info (demo\<lparr>vm := 5, fm := 6\<rparr>))"
  "dev_modules demo_switched 5 = Some [0x07230203, 1]"
  "dev_modules demo_switched 6 = Some [0x07230203, 2]"
  "next_handle demo_switched = 8" "frames demo_switched = 1"
  "current_shader demo_switched = 1"
  "shader_at demo_switched 1 =
     Some \<lparr>name = ''b'', vert_path = ''./b.vert.spv'', frag_path = ''./b.frag.spv''\<rparr>"
  by (simp_all add: demo_switched_def demo_drawn_def demo_built_def demo_def shader_at_def)

theorem failed_load_after_teardown_witness:
  "shader_at demo_switched (current_shader demo_switched) =
     Some \<lparr>name = ''b'', vert_path = ''./b.vert.spv'', frag_path = ''./b.frag.spv''\<rparr> \<and>
   load_spv frame_missing ''./b.vert.spv'' = None \<and>
   reload_requested demo_switched = 1 \<and>
   pipeline demo_switched \<in> dom (dev_pipelines demo_switched) \<and>
   vm demo_switched \<in> dom (dev_modules demo_switched) \<and>
   fm demo_switched \<in> dom (dev_modules demo_switched) \<and>
   fm demo_switched \<noteq> vm demo_switched \<and>
   (\<exists>w'. main_iteration frame_missing demo_switched = Continues w' \<and>
      dev_pipelines w' 7 = None \<and> dev_modules w' 5 = None \<and> dev_modules w' 6 = None \<and>
      next_handle w' = 8 \<and>
      trace w' = trace demo_switched @
        [DestroyPipeline 7, DestroyShaderModule 5, DestroyShaderModule 6,
         Print (MsgFailedToLoad ''b''), Sleep 1] \<and>
      current_shader w' = 1 \<and> reload_requested w' = 1 \<and> frames w' = 1)"
proof -
  note f = demo_switched_fields
  have miss: "load_spv frame_missing ''./b.vert.spv'' = None"
    by (simp add: frame_missing_def)
  have miss': "load_spv frame_missing
      (vert_path \<lparr>name = ''b'', vert_path = ''./b.vert.spv'', frag_path = ''./b.frag.spv''\<rparr>) = None \<or>
     load_spv frame_missing
      (frag_path \<lparr>name = ''b'', vert_path = ''./b.vert.spv'', frag_path = ''./b.frag.spv''\<rparr>) = None"
    using miss by simp
  have req: "reload_requested demo_switched \<noteq> 0 \<or> pipeline demo_switched = VK_NULL_HANDLE"
    by (simp add: f)
  have live: "pipeline demo_switched = VK_NULL_HANDLE \<or> pipeline demo_switched \<in> dom (dev_pipelines demo_switched)"
    "vm demo_switched = VK_NULL_HANDLE \<or> vm demo_switched \<in> dom (dev_modules demo_switched)"
    "fm demo_switched = VK_NULL_HANDLE \<or> fm demo_switched \<in> dom (dev_modules demo_switched)"
    "fm demo_switched = VK_NULL_HANDLE \<or> fm demo_switched \<noteq> vm demo_switched"
    by (simp_all add: f dom_def)
  from failed_load_after_teardown [OF f(1) miss' req live]
  show ?thesis
    using miss by (auto simp: f dom_def drop_handle_def teardown_def VK_NULL_HANDLE_def)
qed

text \<open>
  Claim C1 as stated fails. The pipeline of program \<open>a\<close> is live and in use, the right
  arrow has selected \<open>b\<close> and set the flag, and the binaries of \<open>b\<close> cannot be read: the
  iteration ends in \<open>continue\<close> with the pipeline and both shader modules of \<open>a\<close>
  destroyed.
\<close>

theorem failed_load_keeps_pipeline_counterexample:
  "reload_requested demo_switched = 1 \<and> pipeline demo_switched = 7 \<and>
   dev_pipelines demo_switched 7 \<noteq> None \<and>
   load_spv frame_missing ''./b.vert.spv'' = None \<and>
   load_spv frame_missing ''./b.frag.spv'' = None \<and>
   continued (main_iteration frame_missing demo_switched) \<and>
   dev_pipelines (final (main_iteration frame_missing demo_switched)) 7 = None \<and>
   dev_modules (final (main_iteration frame_missing demo_switched)) 5 = None \<and>
   dev_modules (final (main_iteration frame_missing demo_switched)) 6 = None"
proof -
  have "demo_switched\<lparr>kbd_queue := kbd_queue demo_switched @ arrivals frame_missing\<rparr> = demo_switched"
    by (simp add: demo_def demo_built_def demo_drawn_def demo_switched_def frame1_def
        frame_missing_def)
  then have run: "main_iteration frame_missing demo_switched =
      and_then (reload frame_missing demo_switched) (render_frame frame_missing)"
    by (simp add: main_iteration_def Let_def demo_switched_fields)
  have "reload frame_missing demo_switched =
      Continues (emit (Sleep 1) (printf (MsgFailedToLoad ''b'')
        (emit (DestroyShaderModule 6)
          ((emit (DestroyShaderModule 5)
            ((emit (DestroyPipeline 7)
              (demo_switched\<lparr>dev_pipelines := (dev_pipelines demo_switched)(7 := None)\<rparr>))
              \<lparr>dev_modules := (dev_modules demo_switched)(5 := None)\<rparr>))
            \<lparr>dev_modules := (dev_modules demo_switched)(5 := None, 6 := None)\<rparr>))))"
    by (simp add: reload_def destroy_old_def load_new_def and_then_def vkDestroyPipeline_def
        vkDestroyShaderModule_def demo_switched_fields VK_NULL_HANDLE_def emit_def printf_def
        frame_missing_def dom_def shader_at_def
        demo_def demo_built_def demo_drawn_def demo_switched_def)
  with run show ?thesis
    by (simp add: and_then_def emit_def printf_def demo_switched_fields frame_missing_def)
qed

lemma load_new_ignores_map: "load_new (env\<lparr>gbm_bo_map := g\<rparr>) = load_new env"
  by (rule ext) (simp add: load_new_def split: option.splits)

lemma reload_ignores_map: "reload (env\<lparr>gbm_bo_map := g\<rparr>) w = reload env w"
  by (simp add: reload_def load_new_ignores_map)

lemma submit_ignores_map: "submit_and_wait (env\<lparr>gbm_bo_map := g\<rparr>) w = submit_and_wait env w"
  by (simp add: submit_and_wait_def)

lemma submit_and_wait_scanout: "scanout (final (submit_and_wait env w)) = scanout w"
  by (simp add: submit_and_wait_def VK_CHECK_def and_then_def emit_def printf_def)

lemma count_frame_scanout:
  assumes "count_frame t (emit DirtyFB (w\<lparr>scanout := d\<rparr>)) = Returns w1"
  shows "count_frame t (emit DirtyFB w) = Returns (w1\<lparr>scanout := scanout w\<rparr>)"
  using assms
  by (auto simp: count_frame_def emit_def printf_def shader_at_def Let_def
      split: if_splits option.splits)

lemma count_frame_keeps_scanout: "scanout (final (count_frame t w)) = scanout w"
  by (simp add: count_frame_def emit_def printf_def Let_def split: option.splits)

lemma draw_unmapped:
  assumes "gbm_bo_map env = None"
  shows "scanout (final (draw env t w)) = scanout w"
proof -
  let ?wu = "w\<lparr>ubo_mem := Some \<lparr>iResolution = [uint (W w), uint (H w), 1],
                                      iTime = t, iMouse = [0, 0, 0, 0]\<rparr>\<rparr>"
  have tail: "scanout (final (and_then (present env w3) (\<lambda>w. count_frame t (emit DirtyFB w)))) = scanout w3"
    for w3
    using assms by (simp add: present_def and_then_def count_frame_keeps_scanout) (simp add: emit_def)
  have s: "scanout (final (submit_and_wait env ?wu)) = scanout w"
    by (simp add: submit_and_wait_scanout)
  show ?thesis
  proof (cases "submit_and_wait env ?wu")
    case (Returns w3)
    with s tail [of w3] show ?thesis
      by (simp add: draw_def and_then_def)
  qed (use s in \<open>simp_all add: draw_def and_then_def\<close>)
qed

lemma render_frame_unmapped_scanout:
  assumes "gbm_bo_map env = None"
  shows "scanout (final (render_frame env w)) = scanout w"
proof -
  let ?k = "check_keyboard (kbd_fd w) w"
  have k: "scanout (final ?k) = scanout w"
    using check_keyboard_step [of w "kbd_fd w"] by (simp add: kbd_step_def kbd_frame_def)
  show ?thesis
  proof (cases ?k)
    case (Returns w2)
    with k draw_unmapped [OF assms, of _ w2] show ?thesis
      by (simp add: render_frame_def Let_def and_then_def)
  qed (use k in \<open>simp_all add: render_frame_def Let_def and_then_def\<close>)
qed

lemma main_iteration_unmapped_scanout:
  assumes "gbm_bo_map env = None"
  shows "scanout (final (main_iteration env w)) = scanout w"
proof -
  let ?w0 = "w\<lparr>kbd_queue := kbd_queue w @ arrivals env\<rparr>"
  have rl: "scanout (final (reload env ?w0)) = scanout w"
    using reload_step [of ?w0 env] by (simp add: reload_step_def reload_frame_def)
  from main_iteration_cases [of w env] consider
      (direct) "main_iteration env w = render_frame env ?w0"
    | (reloaded) w1 where "reload env ?w0 = Returns w1"
        "main_iteration env w = render_frame env w1"
    | (skipped) "main_iteration env w = reload env ?w0"
    by blast
  then show ?thesis
  proof cases
    case direct
    with render_frame_unmapped_scanout [OF assms, of ?w0] show ?thesis
      by simp
  next
    case (reloaded w1)
    with rl render_frame_unmapped_scanout [OF assms, of w1] show ?thesis
      by simp
  next
    case skipped
    with rl show ?thesis by simp
  qed
qed

lemma draw_unmapped_Returns:
  assumes "gbm_bo_map env = None" "draw (env\<lparr>gbm_bo_map := Some s\<rparr>) t w = Returns w1"
  shows "draw env t w = Returns (w1\<lparr>scanout := scanout w\<rparr>)"
proof -
  let ?env' = "env\<lparr>gbm_bo_map := Some s\<rparr>"
  let ?wu = "w\<lparr>ubo_mem := Some \<lparr>iResolution = [uint (W w), uint (H w), 1],
                                      iTime = t, iMouse = [0, 0, 0, 0]\<rparr>\<rparr>"
  from assms(2) obtain w3 w4 where
    a: "submit_and_wait env ?wu = Returns w3"
    and b: "present ?env' w3 = Returns w4"
    and c: "count_frame t (emit DirtyFB w4) = Returns w1"
    by (auto simp: draw_def and_then_Returns submit_ignores_map)
  from b obtain d where "w4 = w3\<lparr>scanout := d\<rparr>"
    by (auto simp: present_def split: option.splits)
  with c have "count_frame t (emit DirtyFB w3) = Returns (w1\<lparr>scanout := scanout w3\<rparr>)"
    using count_frame_scanout by simp
  moreover have "scanout w3 = scanout w"
    using submit_and_wait_scanout [of env ?wu] a by simp
  moreover have "present env w3 = Returns w3"
    using assms(1) by (simp add: present_def)
  ultimately show ?thesis
    using a by (simp add: draw_def and_then_def)
qed

lemma render_frame_unmapped_Returns:
  assumes "gbm_bo_map env = None" "render_frame (env\<lparr>gbm_bo_map := Some s\<rparr>) w = Returns w1"
  shows "render_frame env w = Returns (w1\<lparr>scanout := scanout w\<rparr>)"
proof -
  let ?t = "elapsed_since (start w) (clock_now env)"
  from assms(2) obtain w2 where
    k: "check_keyboard (kbd_fd w) w = Returns w2"
    and d: "draw (env\<lparr>gbm_bo_map := Some s\<rparr>) ?t w2 = Returns w1"
    by (auto simp: render_frame_def Let_def and_then_Returns)
  have "scanout w2 = scanout w"
    using check_keyboard_step [of w "kbd_fd w"] k by (simp add: kbd_step_def kbd_frame_def)
  with draw_unmapped_Returns [OF assms(1) d] k show ?thesis
    by (simp add: render_frame_def Let_def and_then_def)
qed

lemma main_iteration_unmapped_Returns:
  assumes "gbm_bo_map env = None" "main_iteration (env\<lparr>gbm_bo_map := Some s\<rparr>) w = Returns w1"
  shows "main_iteration env w = Returns (w1\<lparr>scanout := scanout w\<rparr>)"
proof -
  let ?env' = "env\<lparr>gbm_bo_map := Some s\<rparr>"
  let ?w0 = "w\<lparr>kbd_queue := kbd_queue w @ arrivals env\<rparr>"
  show ?thesis
  proof (cases "reload_requested w \<noteq> 0 \<or> pipeline w = VK_NULL_HANDLE")
    case False
    with assms(2) have "render_frame ?env' ?w0 = Returns w1"
      by (simp add: main_iteration_def Let_def)
    from render_frame_unmapped_Returns [OF assms(1) this] False show ?thesis
      by (simp add: main_iteration_def Let_def)
  next
    case True
    with assms(2) obtain wr where
      r: "reload env ?w0 = Returns wr" and f: "render_frame ?env' wr = Returns w1"
      by (auto simp: main_iteration_def Let_def and_then_Returns reload_ignores_map)
    have "scanout wr = scanout w"
      using reload_step [of ?w0 env] r by (simp add: reload_step_def reload_frame_def)
    with render_frame_unmapped_Returns [OF assms(1) f] r True show ?thesis
      by (auto simp: main_iteration_def Let_def and_then_def)
  qed
qed

text \<open>
  Claim C8. In an iteration in which \<open>gbm_bo_map\<close> returns \<open>NULL\<close>, the copy stage
  returns at once with the state as it was, so the rest of the loop body runs; whatever
  the outcome of the iteration, the scanout buffer holds what it held before; and the
  failure is not fatal: if the iteration would have reached its end with the buffer
  mapped, it reaches its end without the mapping too, in the same state but for the
  pixels, and the loop goes on with the next iteration.
\<close>

theorem unmapped_scanout_skips_copy:
  assumes "gbm_bo_map env = None"
  shows "present env w = Returns w \<and>
         scanout (final (main_iteration env w)) = scanout w \<and>
         (\<forall>s w1. main_iteration (env\<lparr>gbm_bo_map := Some s\<rparr>) w = Returns w1 \<longrightarrow>
            main_iteration env w = Returns (w1\<lparr>scanout := scanout w\<rparr>) \<and>
            (\<forall>envs. main_loop (env # envs) w = main_loop envs (w1\<lparr>scanout := scanout w\<rparr>)))"
proof -
  have "present env w = Returns w"
    using assms by (simp add: present_def)
  moreover have "scanout (final (main_iteration env w)) = scanout w"
    using assms by (rule main_iteration_unmapped_scanout)
  moreover have "main_iteration env w = Returns (w1\<lparr>scanout := scanout w\<rparr>) \<and>
            (\<forall>envs. main_loop (env # envs) w = main_loop envs (w1\<lparr>scanout := scanout w\<rparr>))"
    if "main_iteration (env\<lparr>gbm_bo_map := Some s\<rparr>) w = Returns w1" for s w1
    using main_iteration_unmapped_Returns [OF assms that] by simp
  ultimately show ?thesis
    by blast
qed

theorem unmapped_scanout_skips_copy_witness:
  "gbm_bo_map frame_unmapped = None \<and>
   main_iteration (frame_unmapped\<lparr>gbm_bo_map := Some 8\<rparr>) demo = Returns demo_drawn \<and>
   main_iteration frame_unmapped demo = Returns (demo_drawn\<lparr>scanout := scanout demo\<rparr>) \<and>
   scanout demo = replicate 16 0 \<and>
   scanout demo_drawn = [1, 2, 3, 4, 5, 6, 7, 8, 9, 10, 11, 12, 13, 14, 15, 16] \<and>
   scanout (final (main_iteration frame_unmapped demo)) = replicate 16 0"
proof -
  have n: "gbm_bo_map frame_unmapped = None"
    by (simp add: frame_unmapped_def)
  have "frame_unmapped\<lparr>gbm_bo_map := Some 8\<rparr> = frame1"
    by (simp add: frame_unmapped_def frame1_def)
  then have m: "main_iteration (frame_unmapped\<lparr>gbm_bo_map := Some 8\<rparr>) demo = Returns demo_drawn"
    by (simp add: demo_iteration)
  have s: "scanout demo = replicate 16 0"
    "scanout demo_drawn = [1, 2, 3, 4, 5, 6, 7, 8, 9, 10, 11, 12, 13, 14, 15, 16]"
    by (simp_all add: demo_def demo_drawn_def demo_built_def)
  from unmapped_scanout_skips_copy [OF n, of demo] m s n show ?thesis
    by simp
qed

lemma memcpy_Some:
  assumes "doff + n \<le> length dst" "soff + n \<le> length src"
  shows "\<exists>d. memcpy dst doff src soff n = Some d \<and> length d = length dst \<and>
           (\<forall>i < length dst. d ! i = (if doff \<le> i \<and> i < doff + n then src ! (soff + (i - doff))
                                       else dst ! i))"
proof -
  let ?d = "take doff dst @ take n (drop soff src) @ drop (doff + n) dst"
  have m: "memcpy dst doff src soff n = Some ?d"
    using assms by (simp add: memcpy_def)
  have len: "length ?d = length dst"
    using assms by simp
  have "?d ! i = (if doff \<le> i \<and> i < doff + n then src ! (soff + (i - doff)) else dst ! i)"
    if "i < length dst" for i
  proof -
    consider (before) "i < doff" | (inside) "doff \<le> i" "i < doff + n" | (after) "doff + n \<le> i"
      by linarith
    then show ?thesis
    proof cases
      case before
      with assms show ?thesis
        by (simp add: nth_append)
    next
      case inside
      then have k: "i - doff < n"
        by linarith
      have l1: "length (take doff dst) = doff" and l2: "length (take n (drop soff src)) = n"
        using assms by simp_all
      have "?d ! i = (take n (drop soff src) @ drop (doff + n) dst) ! (i - doff)"
        using inside l1 by (simp add: nth_append)
      also have "\<dots> = take n (drop soff src) ! (i - doff)"
        using k l2 by (simp add: nth_append)
      also have "\<dots> = src ! (soff + (i - doff))"
        using k assms by simp
      finally show ?thesis
        using inside by simp
    next
      case after
      have l1: "length (take doff dst) = doff" and l2: "length (take n (drop soff src)) = n"
        using assms by simp_all
      have "?d ! i = (take n (drop soff src) @ drop (doff + n) dst) ! (i - doff)"
        using after l1 by (simp add: nth_append)
      also have "\<dots> = drop (doff + n) dst ! (i - doff - n)"
        using after l2 by (simp add: nth_append)
      also have "\<dots> = dst ! i"
        using after that by simp
      finally show ?thesis
        using after by simp
    qed
  qed
  with m len show ?thesis
    by blast
qed

lemma unat_row_succ:
  fixes y ht :: "32 word"
  assumes "y < ht"
  shows "unat (y + 1) = unat y + 1"
proof -
  from assms have "unat y < unat ht"
    by (simp add: word_less_nat_alt)
  moreover have "unat ht < 2 ^ 32"
    using unsigned_less [of ht] by simp
  ultimately have "unat y + unat (1 :: 32 word) < 2 ^ LENGTH(32)"
    by simp
  then show ?thesis
    using unat_add_lem [of y 1] by simp
qed

lemma unat_dst_offset:
  fixes y s :: "32 word"
  assumes "unat y * unat s < 2 ^ 32"
  shows "unat (y * s) = unat y * unat s"
  using assms unat_mult_lem [of y s] by simp

lemma unat_src_offset:
  fixes y :: "32 word" and p :: "64 word"
  assumes "unat y * unat p < 2 ^ 64"
  shows "unat (ucast y * p) = unat y * unat p"
proof -
  have "unat y < 2 ^ 32"
    using unsigned_less [of y] by simp
  then have "take_bit 64 (unat y) = unat y"
    by (simp add: take_bit_nat_eq_self)
  then have u: "unat (ucast y :: 64 word) = unat y"
    by (simp add: unsigned_ucast_eq)
  with assms have "unat (ucast y :: 64 word) * unat p < 2 ^ LENGTH(64)"
    by simp
  then show ?thesis
    using unat_mult_lem [of "ucast y :: 64 word" p] u by simp
qed

lemma unat_row_bytes:
  fixes wd :: "32 word"
  assumes "4 * unat wd < 2 ^ 32"
  shows "unat (wd * 4) = 4 * unat wd"
proof -
  have "unat wd * unat (4 :: 32 word) < 2 ^ LENGTH(32)"
    using assms by simp
  then show ?thesis
    using unat_mult_lem [of wd 4] by simp
qed

lemma copy_rows_from:
  fixes wd ht gbmStride :: "32 word" and pitch :: "64 word"
  assumes "4 * unat wd \<le> unat gbmStride" "4 * unat wd \<le> unat pitch"
    and "unat ht * unat gbmStride \<le> length dst" "unat ht * unat pitch \<le> length src"
    and "length dst < 2 ^ 32" "length src < 2 ^ 64"
  shows "\<exists>dst'. copy_rows wd ht gbmStride pitch src y dst = Some dst' \<and>
           length dst' = length dst \<and>
           (\<forall>r x. unat y \<le> r \<and> r < unat ht \<and> x < 4 * unat wd \<longrightarrow>
              dst' ! (r * unat gbmStride + x) = src ! (r * unat pitch + x)) \<and>
           (\<forall>i < length dst.
              (\<forall>r. unat y \<le> r \<and> r < unat ht \<longrightarrow>
                 \<not> (r * unat gbmStride \<le> i \<and> i < r * unat gbmStride + 4 * unat wd)) \<longrightarrow>
              dst' ! i = dst ! i)"
  using assms
proof (induction wd ht gbmStride pitch src y dst rule: copy_rows.induct)
  case (1 wd ht gbmStride pitch src y dst)
  let ?S = "unat gbmStride" and ?P = "unat pitch" and ?n = "4 * unat wd"
  let ?Y = "unat y" and ?H = "unat ht"
  show ?case
  proof (cases "y < ht")
    case False
    then have none: "\<not> (unat y \<le> r \<and> r < unat ht)" for r
      by (simp add: word_less_nat_alt)
    have "copy_rows wd ht gbmStride pitch src y dst = Some dst"
      using False by (subst copy_rows.simps) simp
    with none show ?thesis
      by auto
  next
    case True
    then have Y: "?Y < ?H"
      by (simp add: word_less_nat_alt)
    have succ: "unat (y + 1) = ?Y + 1"
      using True by (rule unat_row_succ)
    have rows_dst: "(?Y + 1) * ?S \<le> length dst"
    proof -
      have "(?Y + 1) * ?S \<le> ?H * ?S"
        using Y by (intro mult_le_mono1) simp
      with "1.prems"(3) show ?thesis by simp
    qed
    have rows_src: "(?Y + 1) * ?P \<le> length src"
    proof -
      have "(?Y + 1) * ?P \<le> ?H * ?P"
        using Y by (intro mult_le_mono1) simp
      with "1.prems"(4) show ?thesis by simp
    qed
    have in_dst: "?Y * ?S + ?n \<le> length dst"
      using rows_dst "1.prems"(1) by simp
    have in_src: "?Y * ?P + ?n \<le> length src"
      using rows_src "1.prems"(2) by simp
    have doff: "unat (y * gbmStride) = ?Y * ?S"
      using in_dst "1.prems"(5) by (intro unat_dst_offset) simp
    have soff: "unat (ucast y * pitch) = ?Y * ?P"
      using in_src "1.prems"(6) by (intro unat_src_offset) simp
    have "unat gbmStride < 2 ^ 32"
      using unsigned_less [of gbmStride] by simp
    with "1.prems"(1) have n: "unat (wd * 4) = ?n"
      by (intro unat_row_bytes) simp
    from memcpy_Some [OF in_dst in_src] obtain d1 where
      m: "memcpy dst (?Y * ?S) src (?Y * ?P) ?n = Some d1"
      and len1: "length d1 = length dst"
      and nth1: "\<And>i. i < length dst \<Longrightarrow>
        d1 ! i = (if ?Y * ?S \<le> i \<and> i < ?Y * ?S + ?n then src ! (?Y * ?P + (i - ?Y * ?S))
                  else dst ! i)"
      by blast
    have m': "memcpy dst (unat (y * gbmStride)) src (unat (ucast y * pitch)) (unat (wd * 4)) = Some d1"
      using m doff soff n by simp
    from "1.IH" [OF True m' "1.prems"(1,2)] "1.prems"(3-6) len1
    obtain dst' where
      c: "copy_rows wd ht gbmStride pitch src (y + 1) d1 = Some dst'"
      and len': "length dst' = length d1"
      and rowsA: "\<And>r x. unat (y + 1) \<le> r \<Longrightarrow> r < ?H \<Longrightarrow> x < ?n \<Longrightarrow>
              dst' ! (r * ?S + x) = src ! (r * ?P + x)"
      and restB: "\<And>i. i < length d1 \<Longrightarrow>
              (\<forall>r. unat (y + 1) \<le> r \<and> r < ?H \<longrightarrow> \<not> (r * ?S \<le> i \<and> i < r * ?S + ?n)) \<Longrightarrow>
              dst' ! i = d1 ! i"
      by auto
    have run: "copy_rows wd ht gbmStride pitch src y dst = Some dst'"
      using True m' c by (subst copy_rows.simps) simp
    have later: "(?Y + 1) * ?S \<le> r * ?S" if "?Y + 1 \<le> r" for r
      using that by (rule mult_le_mono1)
    have A: "dst' ! (r * ?S + x) = src ! (r * ?P + x)"
      if "?Y \<le> r" "r < ?H" "x < ?n" for r x
    proof (cases "r = ?Y")
      case False
      with that succ show ?thesis
        by (intro rowsA) simp_all
    next
      case True
      let ?i = "?Y * ?S + x"
      have i: "?i < length dst"
        using in_dst that(3) by simp
      have "\<not> (r' * ?S \<le> ?i \<and> ?i < r' * ?S + ?n)" if "unat (y + 1) \<le> r'" for r'
      proof -
        have "?i < (?Y + 1) * ?S"
          using \<open>x < ?n\<close> "1.prems"(1) by simp
        also have "\<dots> \<le> r' * ?S"
          using that succ by (intro later) simp
        finally show ?thesis by simp
      qed
      then have "dst' ! ?i = d1 ! ?i"
        using i len1 by (intro restB) simp_all
      also have "\<dots> = src ! (?Y * ?P + x)"
        using nth1 [OF i] that(3) by simp
      finally show ?thesis
        using True by simp
    qed
    have B: "dst' ! i = dst ! i"
      if "i < length dst"
        "\<forall>r. ?Y \<le> r \<and> r < ?H \<longrightarrow> \<not> (r * ?S \<le> i \<and> i < r * ?S + ?n)" for i
    proof -
      have "\<forall>r. unat (y + 1) \<le> r \<and> r < ?H \<longrightarrow> \<not> (r * ?S \<le> i \<and> i < r * ?S + ?n)"
        using that(2) succ by simp
      then have "dst' ! i = d1 ! i"
        using that(1) len1 by (intro restB) simp_all
      moreover have "\<not> (?Y * ?S \<le> i \<and> i < ?Y * ?S + ?n)"
        using that(2) Y by blast
      ultimately show ?thesis
        using nth1 [OF that(1)] by simp
    qed
    from run len' len1 A B show ?thesis
      by simp
  qed
qed

text \<open>
  Claim C5, amended. The scanout mapping has the stride \<open>gbmStride\<close> and the render target
  the row pitch \<open>rowPitch\<close>, each at least \<open>4 * W\<close> bytes; each mapping holds its \<open>H\<close>
  rows, the scanout mapping is shorter than 4 GiB (the loop computes its offsets
  \<open>y * gbmStride\<close> in 32 bits) and the render target shorter than \<open>2 ^ 64\<close> bytes. Then
  the copy succeeds, and afterwards byte \<open>x\<close> of row \<open>y\<close> of the scanout buffer, at
  \<open>y * gbmStride + x\<close>, is byte \<open>x\<close> of row \<open>y\<close> of the render target, at
  \<open>y * rowPitch + x\<close>, for every \<open>y < H\<close> and \<open>x < 4 * W\<close>; every byte of the scanout
  buffer outside these row segments is left as it was. Nothing requires the two strides
  to be equal.
\<close>

theorem row_copy_respects_strides:
  assumes "gbm_bo_map env = Some gbmStride"
    and "4 * unat (W w) \<le> unat gbmStride" "4 * unat (W w) \<le> unat (rowPitch w)"
    and "unat (H w) * unat gbmStride \<le> length (scanout w)"
    and "unat (H w) * unat (rowPitch w) \<le> length (rt_mem env)"
    and "length (scanout w) < 2 ^ 32" "length (rt_mem env) < 2 ^ 64"
  shows "\<exists>w'. present env w = Returns w' \<and>
           length (scanout w') = length (scanout w) \<and>
           (\<forall>y < unat (H w). \<forall>x < 4 * unat (W w).
              scanout w' ! (y * unat gbmStride + x) = rt_mem env ! (y * unat (rowPitch w) + x)) \<and>
           (\<forall>i < length (scanout w).
              (\<forall>y < unat (H w).
                 \<not> (y * unat gbmStride \<le> i \<and> i < y * unat gbmStride + 4 * unat (W w))) \<longrightarrow>
              scanout w' ! i = scanout w ! i)"
proof -
  from copy_rows_from [OF assms(2-7), of 0] obtain dst' where
    c: "copy_rows (W w) (H w) gbmStride (rowPitch w) (rt_mem env) 0 (scanout w) = Some dst'"
    and len: "length dst' = length (scanout w)"
    and rows: "\<And>r x. r < unat (H w) \<Longrightarrow> x < 4 * unat (W w) \<Longrightarrow>
        dst' ! (r * unat gbmStride + x) = rt_mem env ! (r * unat (rowPitch w) + x)"
    and rest: "\<And>i. i < length (scanout w) \<Longrightarrow>
        (\<forall>r. r < unat (H w) \<longrightarrow>
           \<not> (r * unat gbmStride \<le> i \<and> i < r * unat gbmStride + 4 * unat (W w))) \<Longrightarrow>
        dst' ! i = scanout w ! i"
    by auto
  have "present env w = Returns (w\<lparr>scanout := dst'\<rparr>)"
    using assms(1) c by (simp add: present_def)
  with len rows rest show ?thesis
    by simp
qed

lemma strided_copy:
  "present frame_strided strided =
     Returns (strided\<lparr>scanout := [1, 2, 3, 4, 5, 6, 7, 8, 0, 0, 0, 0,
                                     17, 18, 19, 20, 21, 22, 23, 24, 0, 0, 0, 0]\<rparr>)"
  by (simp add: present_def strided_def frame_strided_def frame1_def demo_def copy_rows.simps
      memcpy_def)

theorem row_copy_respects_strides_witness:
  "gbm_bo_map frame_strided = Some 12 \<and> W strided = 2 \<and> H strided = 2 \<and>
   rowPitch strided = 16 \<and> 4 * unat (W strided) \<le> unat (12 :: 32 word) \<and>
   4 * unat (W strided) \<le> unat (rowPitch strided) \<and>
   unat (H strided) * unat (12 :: 32 word) \<le> length (scanout strided) \<and>
   unat (H strided) * unat (rowPitch strided) \<le> length (rt_mem frame_strided) \<and>
   length (scanout strided) < 2 ^ 32 \<and> length (rt_mem frame_strided) < 2 ^ 64 \<and>
   (\<exists>w'. present frame_strided strided = Returns w' \<and>
      scanout w' = [1, 2, 3, 4, 5, 6, 7, 8, 0, 0, 0, 0, 17, 18, 19, 20, 21, 22, 23, 24, 0, 0, 0, 0] \<and>
      scanout w' ! (1 * 12 + 3) = rt_mem frame_strided ! (1 * 16 + 3) \<and>
      scanout w' ! 9 = scanout strided ! 9)"
proof -
  have f: "gbm_bo_map frame_strided = Some 12" "W strided = 2" "H strided = 2"
    "rowPitch strided = 16" "length (scanout strided) = 24" "length (rt_mem frame_strided) = 32"
    by (simp_all add: strided_def frame_strided_def frame1_def demo_def)
  have h: "4 * unat (W strided) \<le> unat (12 :: 32 word)"
    "4 * unat (W strided) \<le> unat (rowPitch strided)"
    "unat (H strided) * unat (12 :: 32 word) \<le> length (scanout strided)"
    "unat (H strided) * unat (rowPitch strided) \<le> length (rt_mem frame_strided)"
    "length (scanout strided) < 2 ^ 32" "length (rt_mem frame_strided) < 2 ^ 64"
    by (simp_all add: f)
  from row_copy_respects_strides [OF f(1) h] obtain w' where
    p: "present frame_strided strided = Returns w'"
    and rows: "\<forall>y < unat (H strided). \<forall>x < 4 * unat (W strided).
        scanout w' ! (y * unat (12 :: 32 word) + x) =
        rt_mem frame_strided ! (y * unat (rowPitch strided) + x)"
    and rest: "\<forall>i < length (scanout strided).
        (\<forall>y < unat (H strided).
           \<not> (y * unat (12 :: 32 word) \<le> i \<and> i < y * unat (12 :: 32 word) + 4 * unat (W strided))) \<longrightarrow>
        scanout w' ! i = scanout strided ! i"
    by blast
  from rows [rule_format, of 1 3] have r: "scanout w' ! (1 * 12 + 3) = rt_mem frame_strided ! (1 * 16 + 3)"
    by (simp add: f)
  have s: "scanout w' = [1, 2, 3, 4, 5, 6, 7, 8, 0, 0, 0, 0, 17, 18, 19, 20, 21, 22, 23, 24, 0, 0, 0, 0]"
    using p by (auto simp: strided_copy)
  have k: "scanout w' ! 9 = scanout strided ! 9"
    using s by (simp add: strided_def)
  from p r s k f h show ?thesis
    by simp
qed

lemma wide_copy:
  "present frame_wide wide =
     Returns (wide\<lparr>scanout := [9, 10, 11, 12] @ replicate (2 ^ 31 - 4) 0 @ [5, 6, 7, 8] @
                                  replicate (2 * 2 ^ 31 - 4) 0\<rparr>)"
proof -
  have "copy_rows 1 3 0x80000000 4 [1, 2, 3, 4, 5, 6, 7, 8, 9, 10, 11, 12] 0
          (replicate (3 * 2 ^ 31) 0) =
        Some ([9, 10, 11, 12] @ replicate (2 ^ 31 - 4) 0 @ [5, 6, 7, 8] @
              replicate (2 * 2 ^ 31 - 4) 0)"
    apply (subst copy_rows.simps, simp add: memcpy_def)
    apply (subst copy_rows.simps, simp add: memcpy_def)
    apply (subst copy_rows.simps, simp add: memcpy_def)
    apply (subst copy_rows.simps, simp add: memcpy_def)
    done
  then show ?thesis
    by (simp add: present_def wide_def frame_wide_def frame1_def demo_def)
qed

text \<open>
  Claim C5 as stated fails. The strides are \<open>2 ^ 31\<close> and \<open>4\<close> bytes, both at least
  \<open>4 * W = 4\<close>, and both mappings hold their three rows. The offset of row \<open>2\<close> of the
  scanout buffer, \<open>2 * gbmStride\<close>, is computed in 32 bits and is \<open>0\<close>: row \<open>2\<close> of the
  render target is written over row \<open>0\<close> of the scanout buffer, and row \<open>2\<close> of the scanout
  buffer is not written.
\<close>

theorem row_copy_wraps_counterexample:
  "gbm_bo_map frame_wide = Some 0x80000000 \<and>
   4 * unat (W wide) \<le> unat (0x80000000 :: 32 word) \<and>
   4 * unat (W wide) \<le> unat (rowPitch wide) \<and>
   unat (H wide) * unat (0x80000000 :: 32 word) \<le> length (scanout wide) \<and>
   unat (H wide) * unat (rowPitch wide) \<le> length (rt_mem frame_wide) \<and>
   present frame_wide wide = Returns (final (present frame_wide wide)) \<and>
   scanout (final (present frame_wide wide)) ! (0 * unat (0x80000000 :: 32 word) + 0) = 9 \<and>
   rt_mem frame_wide ! (0 * unat (rowPitch wide) + 0) = 1 \<and>
   scanout (final (present frame_wide wide)) ! (2 * unat (0x80000000 :: 32 word) + 0) = 0 \<and>
   rt_mem frame_wide ! (2 * unat (rowPitch wide) + 0) = 9"
proof -
  have f: "gbm_bo_map frame_wide = Some 0x80000000" "W wide = 1" "H wide = 3"
    "rowPitch wide = 4" "length (scanout wide) = 3 * 2 ^ 31"
    "rt_mem frame_wide = [1, 2, 3, 4, 5, 6, 7, 8, 9, 10, 11, 12]"
    by (simp_all add: wide_def frame_wide_def frame1_def demo_def)
  have a: "([9, 10, 11, 12] @ replicate (2 ^ 31 - 4) 0 @ [5, 6, 7, 8] @
            replicate (2 * 2 ^ 31 - 4) (0 :: 8 word)) ! 4294967296 = 0"
    by (simp add: nth_append)
  show ?thesis
    using a by (simp add: f wide_copy)
qed

subsection \<open>The registry scan\<close>

lemma strrchr_frag: "strrchr (nm @ ''.frag'') (CHR ''.'') = Some (length nm)"
  by (induction nm) simp_all

lemma strrchr_lt: "strrchr s c = Some k \<Longrightarrow> k < length s"
  by (induction s arbitrary: k) (auto split: option.splits if_splits)

lemma frag_ext:
  "(strrchr d (CHR ''.'') = Some k \<and> drop k d = ''.frag'') \<longleftrightarrow> (d = take k d @ ''.frag'' \<and> k < length d)"
proof
  assume a: "strrchr d (CHR ''.'') = Some k \<and> drop k d = ''.frag''"
  then have "k < length d"
    using strrchr_lt by blast
  moreover have "take k d @ drop k d = d"
    by simp
  ultimately show "d = take k d @ ''.frag'' \<and> k < length d"
    using a by metis
next
  assume a: "d = take k d @ ''.frag'' \<and> k < length d"
  then have l: "length (take k d) = k"
    by simp
  from a have d: "drop k d = ''.frag''"
    by (metis append_eq_conv_conj l)
  from a strrchr_frag [of "take k d"] l have "strrchr d (CHR ''.'') = Some k"
    by metis
  with d show "strrchr d (CHR ''.'') = Some k \<and> drop k d = ''.frag''"
    by simp
qed

lemma scan_entries_mono: "length reg \<le> length (scan_entries st dir es reg)"
proof (induction es arbitrary: reg)
  case Nil
  show ?case by simp
next
  case (Cons e es)
  have a: "length reg \<le> length (scan_entries st dir es reg)"
    by (rule Cons.IH)
  have b: "length reg \<le> length (scan_entries st dir es (reg @ [x]))" for x
    using Cons.IH [of "reg @ [x]"] by simp
  show ?case
    using a b by (simp add: Let_def split: option.splits)
qed

lemma source_entry_name: "source_entry e nm \<Longrightarrow> nm = take (length (d_name e) - 5) (d_name e)"
  by (simp add: source_entry_def)

lemma scan_entry_alt:
  "scan_entry st dir e reg =
     (if \<exists>nm. source_entry e nm \<and> length nm < 256 \<and>
              st (dir @ ''/'' @ nm @ ''.vert.spv'') \<and> st (dir @ ''/'' @ nm @ ''.frag.spv'')
      then reg @ [entry_of dir (take (length (d_name e) - 5) (d_name e))] else reg)"
proof -
  let ?n = "take (length (d_name e) - 5) (d_name e)"
  let ?P = "\<lambda>nm. source_entry e nm \<and> length nm < 256 \<and>
              st (dir @ ''/'' @ nm @ ''.vert.spv'') \<and> st (dir @ ''/'' @ nm @ ''.frag.spv'')"
  have "?P ?n" if "?P nm" for nm
  proof -
    from that have "nm = ?n"
      using source_entry_name by blast
    then have "?n = nm"
      by (rule sym)
    then show ?thesis
      using that by (simp only:)
  qed
  then have "(\<exists>nm. ?P nm) \<longleftrightarrow> ?P ?n"
    by blast
  then show ?thesis
    by (simp only: scan_entry_def Let_def)
qed

lemma snprintf_path: "length s < 512 \<Longrightarrow> snprintf 512 s = s"
  by (simp add: snprintf_def)

lemma scan_entries_step:
  assumes "int (length reg) < MAX_SHADERS" "length dir \<le> 24"
  shows "scan_entries st dir (e # es) reg = scan_entries st dir es (scan_entry st dir e reg)"
proof (cases "\<exists>nm. source_entry e nm \<and> length nm < 256 \<and>
              st (dir @ ''/'' @ nm @ ''.vert.spv'') \<and> st (dir @ ''/'' @ nm @ ''.frag.spv'')")
  case True
  then obtain nm where n: "source_entry e nm" "length nm < 256"
    "st (dir @ ''/'' @ nm @ ''.vert.spv'')" "st (dir @ ''/'' @ nm @ ''.frag.spv'')"
    by blast
  have nm: "nm = take (length (d_name e) - 5) (d_name e)"
    using n(1) by (rule source_entry_name)
  have s: "strrchr (d_name e) (CHR ''.'') = Some (length nm)" "drop (length nm) (d_name e) = ''.frag''"
    "take (length nm) (d_name e) = nm" "d_type e = DT_REG"
    using n(1) by (simp_all add: source_entry_def strrchr_frag)
  have "scan_entry st dir e reg = reg @ [entry_of dir nm]"
    using True nm by (simp add: scan_entry_alt)
  then show ?thesis
    using assms n s by (simp add: Let_def snprintf_path entry_of_def)
next
  case False
  have r: "scan_entry st dir e reg = reg"
    using False by (simp add: scan_entry_alt)
  show ?thesis
  proof (cases "d_type e = DT_REG")
    case reg: True
    show ?thesis
    proof (cases "strrchr (d_name e) (CHR ''.'')")
      case None
      then show ?thesis
        using assms r by simp
    next
      case (Some k)
      show ?thesis
      proof (cases "drop k (d_name e) = ''.frag'' \<and> k < 256")
        case ok: True
        with Some frag_ext [of "d_name e" k] have d: "d_name e = take k (d_name e) @ ''.frag''" "k < length (d_name e)"
          by simp_all
        then have se: "source_entry e (take k (d_name e))"
          using reg by (simp add: source_entry_def)
        have l: "length (take k (d_name e)) = k"
          using d(2) by simp
        from False se l ok have "\<not> (st (dir @ ''/'' @ take k (d_name e) @ ''.vert.spv'') \<and>
              st (dir @ ''/'' @ take k (d_name e) @ ''.frag.spv''))"
          by metis
        then show ?thesis
          using assms r Some ok reg l by (auto simp: Let_def snprintf_path)
      next
        case False
        then show ?thesis
          using assms r Some reg by auto
      qed
    qed
  next
    case False
    then show ?thesis
      using assms r by simp
  qed
qed

lemma scan_entry_mem:
  "s \<in> set (scan_entry st dir e reg) \<longleftrightarrow>
     s \<in> set reg \<or> (\<exists>nm. s = entry_of dir nm \<and> source_entry e nm \<and> length nm < 256 \<and>
        st (dir @ ''/'' @ nm @ ''.vert.spv'') \<and> st (dir @ ''/'' @ nm @ ''.frag.spv''))"
  using source_entry_name [of e] by (auto simp: scan_entry_alt)

lemma scan_entries_mem:
  assumes "int (length (scan_entries st dir es reg)) < MAX_SHADERS" "length dir \<le> 24"
  shows "s \<in> set (scan_entries st dir es reg) \<longleftrightarrow>
           s \<in> set reg \<or> (\<exists>nm. s = entry_of dir nm \<and> found_in st dir es nm)"
  using assms(1)
proof (induction es arbitrary: reg)
  case Nil
  show ?case
    by (simp add: found_in_def)
next
  case (Cons e es)
  have "length reg \<le> length (scan_entries st dir (e # es) reg)"
    by (rule scan_entries_mono)
  with Cons.prems have lt: "int (length reg) < MAX_SHADERS"
    by linarith
  have step: "scan_entries st dir (e # es) reg = scan_entries st dir es (scan_entry st dir e reg)"
    using lt assms(2) by (rule scan_entries_step)
  with Cons.prems have "int (length (scan_entries st dir es (scan_entry st dir e reg))) < MAX_SHADERS"
    by simp
  from Cons.IH [OF this] show ?case
    unfolding step scan_entry_mem by (auto simp: found_in_def)
qed

lemma scan_shaders_shaders:
  "shaders (scan_shaders fs dir w) =
     (case opendir fs dir of None \<Rightarrow> shaders w
      | Some es \<Rightarrow> scan_entries (stat_ok fs) dir es (shaders w))"
  by (simp add: scan_shaders_def split: option.splits)

lemma scan_shaders_trace: "trace (scan_shaders fs dir w) = trace w"
  by (simp add: scan_shaders_def split: option.splits)

lemma scan_shaders_mono: "shader_count w \<le> shader_count (scan_shaders fs dir w)"
  by (simp add: shader_count_def scan_shaders_shaders scan_entries_mono split: option.splits)

lemma scan_shaders_mem:
  assumes "shader_count (scan_shaders fs dir w) < MAX_SHADERS" "length dir \<le> 24"
  shows "s \<in> set (shaders (scan_shaders fs dir w)) \<longleftrightarrow>
           s \<in> set (shaders w) \<or> (\<exists>nm. s = entry_of dir nm \<and> eligible fs dir nm)"
proof (cases "opendir fs dir")
  case None
  then show ?thesis
    by (simp add: scan_shaders_shaders eligible_def)
next
  case (Some es)
  with assms(1) have "int (length (scan_entries (stat_ok fs) dir es (shaders w))) < MAX_SHADERS"
    by (simp add: shader_count_def scan_shaders_shaders)
  from scan_entries_mem [OF this assms(2)] show ?thesis
    using Some by (simp add: scan_shaders_shaders eligible_def)
qed

lemma print_list_shaders: "shaders (print_list ss i w) = shaders w"
  by (induction ss arbitrary: i w) (simp_all add: printf_def emit_def)

lemma print_list_Nil_trace: "trace (print_list [] i w) = trace w"
  by simp

lemma scan_all_shaders_shaders:
  "shaders (scan_all_shaders fs w) =
     shaders (scan_shaders fs ''/root/metalshade/shaders''
               (scan_shaders fs ''./shaders'' (scan_shaders fs ''.'' (w\<lparr>shaders := []\<rparr>))))"
  by (simp add: scan_all_shaders_def search_dirs_def Let_def print_list_shaders printf_def emit_def)

lemma scan_all_shaders_mem:
  assumes "shader_count (scan_all_shaders fs w) < MAX_SHADERS"
  shows "s \<in> set (shaders (scan_all_shaders fs w)) \<longleftrightarrow>
           (\<exists>dir \<in> set search_dirs. \<exists>nm. s = entry_of dir nm \<and> eligible fs dir nm)"
proof -
  let ?w0 = "w\<lparr>shaders := []\<rparr>"
  let ?w1 = "scan_shaders fs ''.'' ?w0"
  let ?w2 = "scan_shaders fs ''./shaders'' ?w1"
  let ?w3 = "scan_shaders fs ''/root/metalshade/shaders'' ?w2"
  have c3: "shader_count ?w3 < MAX_SHADERS"
    using assms by (simp add: shader_count_def scan_all_shaders_shaders)
  have "shader_count ?w2 \<le> shader_count ?w3"
    by (rule scan_shaders_mono)
  with c3 have c2: "shader_count ?w2 < MAX_SHADERS"
    by linarith
  have "shader_count ?w1 \<le> shader_count ?w2"
    by (rule scan_shaders_mono)
  with c2 have c1: "shader_count ?w1 < MAX_SHADERS"
    by linarith
  have m1: "s \<in> set (shaders ?w1) \<longleftrightarrow> (\<exists>nm. s = entry_of ''.'' nm \<and> eligible fs ''.'' nm)"
    using scan_shaders_mem [OF c1, of s] by simp
  have m2: "s \<in> set (shaders ?w2) \<longleftrightarrow>
      s \<in> set (shaders ?w1) \<or> (\<exists>nm. s = entry_of ''./shaders'' nm \<and> eligible fs ''./shaders'' nm)"
    using scan_shaders_mem [OF c2, of s] by simp
  have m3: "s \<in> set (shaders ?w3) \<longleftrightarrow>
      s \<in> set (shaders ?w2) \<or>
      (\<exists>nm. s = entry_of ''/root/metalshade/shaders'' nm \<and> eligible fs ''/root/metalshade/shaders'' nm)"
    using scan_shaders_mem [OF c3, of s] by simp
  show ?thesis
    unfolding scan_all_shaders_shaders m3 m2 m1 by (simp add: search_dirs_def)
qed

lemma entry_of_name: "name (entry_of dir nm) = nm"
  by (simp add: entry_of_def)

lemma scan_all_shaders_empty_trace:
  assumes "shaders (scan_all_shaders fs w) = []"
  shows "trace (scan_all_shaders fs w) = trace w @ [Print (MsgFound 0)]"
proof -
  let ?w2 = "fold (scan_shaders fs) search_dirs (w\<lparr>shaders := []\<rparr>)"
  have s: "shaders ?w2 = []"
    using assms by (simp add: scan_all_shaders_def Let_def print_list_shaders printf_def emit_def)
  have t: "trace ?w2 = trace w"
    by (simp add: search_dirs_def scan_shaders_trace)
  show ?thesis
    using s t by (simp add: scan_all_shaders_def Let_def printf_def emit_def shader_count_def)
qed

lemma startup_empty:
  assumes "shaders (scan_all_shaders fs (initialisers w0)) = []"
  shows "\<exists>w'. startup argv fs kbd clock w0 = Exits 1 w' \<and>
           trace w' = trace w0 @ [Print (MsgFound 0), Print MsgNoCompiledShaders]"
proof -
  have t: "trace (scan_all_shaders fs (initialisers w0)) = trace w0 @ [Print (MsgFound 0)]"
    using scan_all_shaders_empty_trace [OF assms] by (simp add: initialisers_def)
  have "startup argv fs kbd clock w0 =
          Exits 1 (printf MsgNoCompiledShaders (scan_all_shaders fs (initialisers w0)))"
    using assms by (simp add: startup_def Let_def shader_count_def)
  then show ?thesis
    using t by (simp add: printf_def emit_def)
qed

text \<open>
  Claim C6, amended. As long as the registry has not reached its 256 entries, a program
  named \<open>nm\<close> is in the registry if and only if one of the three search locations has,
  in its directory listing, a regular file \<open>nm.frag\<close> with \<open>nm\<close> shorter than 256
  characters, and \<open>stat\<close> succeeds on both \<open>nm.vert.spv\<close> and \<open>nm.frag.spv\<close> in that same
  location; the registry entry carries these two paths. When the scan at startup finds
  nothing, the program prints the count 0 and the "no compiled shaders" message and
  returns 1.
\<close>

theorem registry_lists_frag_sources:
  assumes "shader_count (scan_all_shaders fs (initialisers w0)) < MAX_SHADERS"
  shows "((\<exists>s \<in> set (shaders (scan_all_shaders fs (initialisers w0))). name s = nm) \<longleftrightarrow>
            (\<exists>dir \<in> set search_dirs. eligible fs dir nm)) \<and>
         (s \<in> set (shaders (scan_all_shaders fs (initialisers w0))) \<longleftrightarrow>
            (\<exists>dir \<in> set search_dirs. s = entry_of dir (name s) \<and> eligible fs dir (name s))) \<and>
         (shaders (scan_all_shaders fs (initialisers w0)) = [] \<longrightarrow>
            (\<exists>w'. startup argv fs kbd clock w0 = Exits 1 w' \<and>
                  trace w' = trace w0 @ [Print (MsgFound 0), Print MsgNoCompiledShaders]))"
proof -
  let ?R = "shaders (scan_all_shaders fs (initialisers w0))"
  have mem: "x \<in> set ?R \<longleftrightarrow>
      (\<exists>dir \<in> set search_dirs. \<exists>n. x = entry_of dir n \<and> eligible fs dir n)" for x
    using assms by (rule scan_all_shaders_mem)
  have a: "(\<exists>x \<in> set ?R. name x = nm) \<longleftrightarrow> (\<exists>dir \<in> set search_dirs. eligible fs dir nm)"
  proof
    assume "\<exists>x \<in> set ?R. name x = nm"
    then obtain x where x: "x \<in> set ?R" "name x = nm"
      by blast
    from x(1) mem [of x] obtain dir n where
      d: "dir \<in> set search_dirs" "x = entry_of dir n" "eligible fs dir n"
      by blast
    from d(2) x(2) have "n = nm"
      by (simp add: entry_of_name)
    with d show "\<exists>dir \<in> set search_dirs. eligible fs dir nm"
      by blast
  next
    assume "\<exists>dir \<in> set search_dirs. eligible fs dir nm"
    then obtain dir where d: "dir \<in> set search_dirs" "eligible fs dir nm"
      by blast
    then have "entry_of dir nm \<in> set ?R"
      using mem [of "entry_of dir nm"] by blast
    moreover have "name (entry_of dir nm) = nm"
      by (rule entry_of_name)
    ultimately show "\<exists>x \<in> set ?R. name x = nm"
      by blast
  qed
  have b: "s \<in> set ?R \<longleftrightarrow>
      (\<exists>dir \<in> set search_dirs. s = entry_of dir (name s) \<and> eligible fs dir (name s))"
  proof
    assume "s \<in> set ?R"
    with mem [of s] obtain dir n where
      d: "dir \<in> set search_dirs" "s = entry_of dir n" "eligible fs dir n"
      by blast
    from d(2) have "name s = n"
      by (simp add: entry_of_name)
    with d(2,3) have "s = entry_of dir (name s)" "eligible fs dir (name s)"
      by simp_all
    with d(1) show "\<exists>dir \<in> set search_dirs. s = entry_of dir (name s) \<and> eligible fs dir (name s)"
      by blast
  next
    assume "\<exists>dir \<in> set search_dirs. s = entry_of dir (name s) \<and> eligible fs dir (name s)"
    then show "s \<in> set ?R"
      using mem [of s] by blast
  qed
  have c: "?R = [] \<longrightarrow>
      (\<exists>w'. startup argv fs kbd clock w0 = Exits 1 w' \<and>
            trace w' = trace w0 @ [Print (MsgFound 0), Print MsgNoCompiledShaders])"
    using startup_empty by blast
  from a b c show ?thesis
    by blast
qed

lemma fs_src_scan:
  "shaders (scan_all_shaders fs_src (initialisers demo)) =
     [\<lparr>name = ''plasma'', vert_path = ''./shaders/plasma.vert.spv'',
       frag_path = ''./shaders/plasma.frag.spv''\<rparr>]"
  by (simp add: scan_all_shaders_shaders scan_shaders_shaders fs_src_def DT_REG_def
      MAX_SHADERS_def snprintf_def Let_def)

lemma fs_bin_scan: "shaders (scan_all_shaders fs_bin (initialisers demo)) = []"
  by (simp add: scan_all_shaders_shaders scan_shaders_shaders fs_bin_def DT_REG_def
      MAX_SHADERS_def snprintf_def Let_def initialisers_def)

theorem registry_lists_frag_sources_witness:
  "shader_count (scan_all_shaders fs_src (initialisers demo)) < MAX_SHADERS \<and>
   eligible fs_src ''./shaders'' ''plasma'' \<and>
   ''plasma'' \<in> set (map name (shaders (scan_all_shaders fs_src (initialisers demo)))) \<and>
   \<not> eligible fs_src ''.'' ''tunnel'' \<and> \<not> eligible fs_src ''./shaders'' ''tunnel'' \<and>
   \<not> eligible fs_src ''/root/metalshade/shaders'' ''tunnel'' \<and>
   ''tunnel'' \<notin> set (map name (shaders (scan_all_shaders fs_src (initialisers demo)))) \<and>
   shader_count (scan_all_shaders fs_bin (initialisers demo)) < MAX_SHADERS \<and>
   shaders (scan_all_shaders fs_bin (initialisers demo)) = [] \<and>
   startup [''metalshader''] fs_bin 3 \<lparr>tv_sec = 0, tv_nsec = 0\<rparr> demo =
     Exits 1 (final (startup [''metalshader''] fs_bin 3 \<lparr>tv_sec = 0, tv_nsec = 0\<rparr> demo)) \<and>
   trace (final (startup [''metalshader''] fs_bin 3 \<lparr>tv_sec = 0, tv_nsec = 0\<rparr> demo)) =
     trace demo @ [Print (MsgFound 0), Print MsgNoCompiledShaders]"
proof -
  have c1: "shader_count (scan_all_shaders fs_src (initialisers demo)) < MAX_SHADERS"
    by (simp add: shader_count_def fs_src_scan MAX_SHADERS_def)
  have c2: "shader_count (scan_all_shaders fs_bin (initialisers demo)) < MAX_SHADERS"
    by (simp add: shader_count_def fs_bin_scan MAX_SHADERS_def)
  have e: "eligible fs_src ''./shaders'' ''plasma''" "\<not> eligible fs_src ''.'' ''tunnel''"
    "\<not> eligible fs_src ''./shaders'' ''tunnel''"
    "\<not> eligible fs_src ''/root/metalshade/shaders'' ''tunnel''"
    by (simp_all add: eligible_def found_in_def source_entry_def fs_src_def)
  have "\<exists>s \<in> set (shaders (scan_all_shaders fs_src (initialisers demo))). name s = ''plasma''"
    using registry_lists_frag_sources [OF c1, of "''plasma''"] e(1)
    by (simp add: search_dirs_def)
  then have p: "''plasma'' \<in> set (map name (shaders (scan_all_shaders fs_src (initialisers demo))))"
    by force
  have "\<not> (\<exists>s \<in> set (shaders (scan_all_shaders fs_src (initialisers demo))). name s = ''tunnel'')"
    using registry_lists_frag_sources [OF c1, of "''tunnel''"] e(2-4)
    by (simp add: search_dirs_def)
  then have q: "''tunnel'' \<notin> set (map name (shaders (scan_all_shaders fs_src (initialisers demo))))"
    by force
  from registry_lists_frag_sources [OF c2] fs_bin_scan obtain w' where
    s: "startup [''metalshader''] fs_bin 3 \<lparr>tv_sec = 0, tv_nsec = 0\<rparr> demo = Exits 1 w'"
    and t: "trace w' = trace demo @ [Print (MsgFound 0), Print MsgNoCompiledShaders]"
    by blast
  from c1 c2 e p q s t fs_bin_scan show ?thesis
    by simp
qed

text \<open>
  Claim C6 as stated fails. Both compiled binaries of \<open>a\<close> exist in the current directory,
  which lists them; no entry \<open>a.frag\<close> is there. The scan finds nothing, and the program
  stops with "no compiled shaders".
\<close>

theorem binaries_without_source_counterexample:
  "opendir fs_bin ''.'' = Some [\<lparr>d_name = ''a.vert.spv'', d_type = DT_REG\<rparr>,
                                \<lparr>d_name = ''a.frag.spv'', d_type = DT_REG\<rparr>] \<and>
   stat_ok fs_bin ''./a.vert.spv'' \<and> stat_ok fs_bin ''./a.frag.spv'' \<and>
   shaders (scan_all_shaders fs_bin (initialisers demo)) = [] \<and>
   startup [''metalshader'', ''a''] fs_bin 3 \<lparr>tv_sec = 0, tv_nsec = 0\<rparr> demo =
     Exits 1 (final (startup [''metalshader'', ''a''] fs_bin 3 \<lparr>tv_sec = 0, tv_nsec = 0\<rparr> demo)) \<and>
   trace (final (startup [''metalshader'', ''a''] fs_bin 3 \<lparr>tv_sec = 0, tv_nsec = 0\<rparr> demo)) =
     [Print (MsgFound 0), Print MsgNoCompiledShaders]"
proof -
  from startup_empty [OF fs_bin_scan] obtain w' where
    s: "startup [''metalshader'', ''a''] fs_bin 3 \<lparr>tv_sec = 0, tv_nsec = 0\<rparr> demo = Exits 1 w'"
    and t: "trace w' = trace demo @ [Print (MsgFound 0), Print MsgNoCompiledShaders]"
    by blast
  have d: "trace demo = []"
    by (simp add: demo_def)
  have o: "opendir fs_bin ''.'' = Some [\<lparr>d_name = ''a.vert.spv'', d_type = DT_REG\<rparr>,
                                       \<lparr>d_name = ''a.frag.spv'', d_type = DT_REG\<rparr>]"
    "stat_ok fs_bin ''./a.vert.spv''" "stat_ok fs_bin ''./a.frag.spv''"
    by (simp_all add: fs_bin_def)
  from s t d o fs_bin_scan show ?thesis
    by simp
qed

end
